theory Spec2Isabelle
  imports Main "HOL-Library.Sublist"
begin

section \<open>Strings and errors\<close>

text \<open>
  A Python \<open>str\<close> is a sequence of Unicode code points, and \<open>len\<close> counts code
  points; a string is therefore a list of code point numbers. \<open>codes\<close> turns an ASCII
  literal of the source into that representation.
\<close>

type_synonym pystr = "nat list"

definition codes :: "string \<Rightarrow> pystr" where
  "codes s = map of_char s"

text \<open>
  The exceptions the program can raise: \<open>ValueError\<close> with its message, raised by the
  validation code of \<open>create_skill.py\<close>, and the \<open>OSError\<close> subclasses raised by
  the file system calls.
\<close>

datatype error =
    ValueError pystr
  | FileNotFoundError
  | FileExistsError
  | NotADirectoryError
  | IsADirectoryError

definition hyphen :: nat where
  "hyphen = 45"

definition space :: nat where
  "space = 32"

definition slash :: nat where
  "slash = 47"

definition dot :: pystr where
  "dot = [46]"

definition dotdot :: pystr where
  "dotdot = [46, 46]"

text \<open>
  \<open>str.lower()\<close>. The only code points whose lowercase form contains an ASCII character
  are \<open>A\<close> to \<open>Z\<close>, U+0130 (lowercased to \<open>i\<close> followed by U+0307) and U+212A, the
  Kelvin sign (lowercased to \<open>k\<close>). Every other code point outside ASCII has a lowercase
  form outside ASCII; it is left as it is here, since the only use of \<open>lower\<close> in the
  program is followed by the removal of every code point outside \<open>[a-z0-9-]\<close>.
\<close>

definition lower_cp :: "nat \<Rightarrow> pystr" where
  "lower_cp c =
     (if 65 \<le> c \<and> c \<le> 90 then [c + 32]
      else if c = 304 then [105, 775]
      else if c = 8490 then [107]
      else [c])"

definition lower :: "pystr \<Rightarrow> pystr" where
  "lower s = concat (map lower_cp s)"

text \<open>\<open>s.replace(old, new)\<close> for one-character strings \<open>old\<close> and \<open>new\<close>.\<close>

definition replace :: "nat \<Rightarrow> nat \<Rightarrow> pystr \<Rightarrow> pystr" where
  "replace old new s = map (\<lambda>c. if c = old then new else c) s"

text \<open>
  \<open>s.strip(chars)\<close> and \<open>s.strip()\<close>: the code points to remove are dropped from both
  ends. Without an argument the code points removed are those of \<open>str.isspace\<close>.
\<close>

definition strip_by :: "(nat \<Rightarrow> bool) \<Rightarrow> pystr \<Rightarrow> pystr" where
  "strip_by P s = rev (dropWhile P (rev (dropWhile P s)))"

definition strip_chars :: "pystr \<Rightarrow> pystr \<Rightarrow> pystr" where
  "strip_chars chars s = strip_by (\<lambda>c. c \<in> set chars) s"

definition isspace_cp :: "nat \<Rightarrow> bool" where
  "isspace_cp c \<longleftrightarrow>
     (9 \<le> c \<and> c \<le> 13) \<or> (28 \<le> c \<and> c \<le> 32) \<or> c = 133 \<or> c = 160 \<or> c = 5760 \<or>
     (8192 \<le> c \<and> c \<le> 8202) \<or> c = 8232 \<or> c = 8233 \<or> c = 8239 \<or> c = 8287 \<or> c = 12288"

definition strip :: "pystr \<Rightarrow> pystr" where
  "strip s = strip_by isspace_cp s"

section \<open>The name sanitizer\<close>

text \<open>The character class \<open>[a-z0-9-]\<close> of the first regular expression.\<close>

definition slug_char :: "nat \<Rightarrow> bool" where
  "slug_char c \<longleftrightarrow> (97 \<le> c \<and> c \<le> 122) \<or> (48 \<le> c \<and> c \<le> 57) \<or> c = hyphen"

text \<open>
  \<open>re.sub(r'[^a-z0-9-]', '', s)\<close>: every code point that matches the negated class is
  replaced by the empty string.
\<close>

definition re_sub_invalid :: "pystr \<Rightarrow> pystr" where
  "re_sub_invalid s = concat (map (\<lambda>c. if \<not> slug_char c then [] else [c]) s)"

text \<open>
  \<open>re.sub(r'-+', '-', s)\<close>: scanning from the left, a hyphen starts a match that takes
  the whole run of hyphens (the quantifier is greedy), and the match is replaced by one
  hyphen; any other code point is copied.
\<close>

function re_sub_hyphens :: "pystr \<Rightarrow> pystr" where
  "re_sub_hyphens [] = []"
| "re_sub_hyphens (c # cs) =
     (if c = hyphen then hyphen # re_sub_hyphens (dropWhile (\<lambda>d. d = hyphen) cs)
      else c # re_sub_hyphens cs)"
  by pat_completeness auto
termination
  by (relation "measure length") (auto simp: length_dropWhile_le le_imp_less_Suc)

text \<open>The value of the local variable \<open>clean\<close> of \<open>sanitize_name\<close> after its three assignments.\<close>

definition clean_name :: "pystr \<Rightarrow> pystr" where
  "clean_name name =
     (let clean = re_sub_invalid (replace space hyphen (lower name));
          clean = re_sub_hyphens clean;
          clean = strip_chars (codes ''-'') clean
      in clean)"

definition reserved_message :: pystr where
  "reserved_message = codes ''Skill name cannot contain 'anthropic' or 'claude'' @ [39]"

definition length_message :: pystr where
  "length_message = codes ''Skill name must be 64 characters or less''"

definition sanitize_name :: "pystr \<Rightarrow> error + pystr" where
  "sanitize_name name =
     (let clean = clean_name name in
      if sublist (codes ''anthropic'') clean \<or> sublist (codes ''claude'') clean
      then Inl (ValueError reserved_message)
      else if length clean > 64
      then Inl (ValueError length_message)
      else Inr clean)"

subsection \<open>The normalisation as the specification words it\<close>

text \<open>
  Step 3 of the specification: a run of two or more consecutive hyphens becomes a single
  hyphen. Step 4: leading and trailing hyphens are trimmed.
\<close>

fun collapse_hyphens :: "pystr \<Rightarrow> pystr" where
  "collapse_hyphens (a # b # cs) =
     (if a = hyphen \<and> b = hyphen then collapse_hyphens (b # cs)
      else a # collapse_hyphens (b # cs))"
| "collapse_hyphens cs = cs"

fun trim_leading :: "pystr \<Rightarrow> pystr" where
  "trim_leading [] = []"
| "trim_leading (c # cs) = (if c = hyphen then trim_leading cs else c # cs)"

fun trim_trailing :: "pystr \<Rightarrow> pystr" where
  "trim_trailing [] = []"
| "trim_trailing (c # cs) =
     (let r = trim_trailing cs in if r = [] \<and> c = hyphen then [] else c # r)"

definition spec_normalize :: "pystr \<Rightarrow> pystr" where
  "spec_normalize s =
     (let s1 = map (\<lambda>c. if c = space then hyphen else c) (lower s);
          s2 = filter slug_char s1;
          s3 = collapse_hyphens s2;
          s4 = trim_trailing (trim_leading s3)
      in s4)"

section \<open>Paths\<close>

text \<open>
  A \<open>pathlib\<close> path on a POSIX system: the root (\<open>''\<close>, \<open>'/'\<close> or \<open>'//'\<close>) and the
  components after it. \<open>Path\<close> parses a string as the constructor does: the string is
  split at \<open>'/'\<close>, and empty components and \<open>'.'\<close> are dropped (\<open>'..'\<close> is kept).
\<close>

record path =
  root :: pystr
  tail :: "pystr list"

fun split_on :: "nat \<Rightarrow> pystr \<Rightarrow> pystr list" where
  "split_on sep [] = [[]]"
| "split_on sep (c # cs) =
     (if c = sep then [] # split_on sep cs
      else (case split_on sep cs of [] \<Rightarrow> [[c]] | r # rs \<Rightarrow> (c # r) # rs))"

definition splitroot :: "pystr \<Rightarrow> pystr" where
  "splitroot s =
     (if take 1 s \<noteq> [slash] then []
      else if take 1 (drop 1 s) \<noteq> [slash] \<or> take 1 (drop 2 s) = [slash] then [slash]
      else [slash, slash])"

definition Path :: "pystr \<Rightarrow> path" where
  "Path s = \<lparr>root = splitroot s, tail = filter (\<lambda>x. x \<noteq> [] \<and> x \<noteq> dot) (split_on slash s)\<rparr>"

text \<open>\<open>p / s\<close> for a string \<open>s\<close>: a rooted \<open>s\<close> replaces \<open>p\<close>, any other is appended.\<close>

definition joinpath :: "path \<Rightarrow> pystr \<Rightarrow> path" where
  "joinpath p s = (let q = Path s in if root q \<noteq> [] then q else p\<lparr>tail := tail p @ tail q\<rparr>)"

definition parent :: "path \<Rightarrow> path" where
  "parent p = p\<lparr>tail := butlast (tail p)\<rparr>"

definition is_absolute :: "path \<Rightarrow> bool" where
  "is_absolute p \<longleftrightarrow> root p \<noteq> []"

section \<open>The file system\<close>

text \<open>
  The file system holds the current working directory and a node (a directory, or a file
  with its text) at some locations; a location is the list of names leading to it from the
  root directory, which always exists. Permissions, links, quotas and name limits are not
  part of the model, and neither is the encoding of text.
\<close>

datatype node = File pystr | Dir

record filesystem =
  cwd :: "pystr list"
  nodes :: "pystr list \<Rightarrow> node option"

definition lookup :: "filesystem \<Rightarrow> pystr list \<Rightarrow> node option" where
  "lookup fs q = (if q = [] then Some Dir else nodes fs q)"

text \<open>
  The walk of the operating system along the components of a path, each of which has to
  name a directory; \<open>'..'\<close> steps to the parent (the root is its own parent).
\<close>

fun walk :: "filesystem \<Rightarrow> pystr list \<Rightarrow> pystr list \<Rightarrow> error + pystr list" where
  "walk fs cur [] = Inr cur"
| "walk fs cur (c # cs) =
     (if c = dotdot then walk fs (butlast cur) cs
      else (case lookup fs (cur @ [c]) of
              None \<Rightarrow> Inl FileNotFoundError
            | Some (File _) \<Rightarrow> Inl NotADirectoryError
            | Some Dir \<Rightarrow> walk fs (cur @ [c]) cs))"

definition resolve_dir :: "filesystem \<Rightarrow> path \<Rightarrow> error + pystr list" where
  "resolve_dir fs p =
     (if root p \<noteq> [] then walk fs [] (tail p)
      else (case lookup fs (cwd fs) of
              Some Dir \<Rightarrow> walk fs (cwd fs) (tail p)
            | _ \<Rightarrow> Inl FileNotFoundError))"

text \<open>
  A statement that touches the file system takes the state and returns its outcome, an
  exception or a value, with the state it leaves. \<open>seq\<close> runs one statement after
  another: an exception of the first ends the run.
\<close>

type_synonym 'a io = "filesystem \<Rightarrow> (error + 'a) \<times> filesystem"

definition seq :: "unit io \<Rightarrow> 'a io \<Rightarrow> 'a io" where
  "seq m k fs = (case m fs of (Inl e, fs') \<Rightarrow> (Inl e, fs') | (Inr _, fs') \<Rightarrow> k fs')"

definition return :: "'a \<Rightarrow> 'a io" where
  "return x fs = (Inr x, fs)"

definition raise :: "error \<Rightarrow> 'a io" where
  "raise e fs = (Inl e, fs)"

text \<open>\<open>os.mkdir\<close>: the parent has to be a directory and the name has to be free.\<close>

definition os_mkdir :: "path \<Rightarrow> unit io" where
  "os_mkdir p fs =
     (if tail p = [] then
        (case resolve_dir fs p of Inl e \<Rightarrow> (Inl e, fs) | Inr _ \<Rightarrow> (Inl FileExistsError, fs))
      else
        (case resolve_dir fs (parent p) of
           Inl e \<Rightarrow> (Inl e, fs)
         | Inr d \<Rightarrow>
             if last (tail p) = dotdot then (Inl FileExistsError, fs)
             else (case lookup fs (d @ [last (tail p)]) of
                     Some _ \<Rightarrow> (Inl FileExistsError, fs)
                   | None \<Rightarrow> (Inr (), fs\<lparr>nodes := (nodes fs)(d @ [last (tail p)] \<mapsto> Dir)\<rparr>))))"

definition is_dir :: "path \<Rightarrow> filesystem \<Rightarrow> bool" where
  "is_dir p fs = (case resolve_dir fs p of Inl _ \<Rightarrow> False | Inr _ \<Rightarrow> True)"

text \<open>
  \<open>Path.mkdir(parents, exist_ok)\<close> as \<open>pathlib\<close> defines it: \<open>os.mkdir\<close> is tried first;
  on \<open>FileNotFoundError\<close> with \<open>parents\<close> set the parent is made (with its own parents)
  and the directory is tried again; any other \<open>OSError\<close> is dropped when \<open>exist_ok\<close> is
  set and the path names a directory.
\<close>

function mkdir :: "path \<Rightarrow> bool \<Rightarrow> bool \<Rightarrow> unit io" where
  "mkdir p parents exist_ok fs =
     (case os_mkdir p fs of
        (Inr u, fs') \<Rightarrow> (Inr u, fs')
      | (Inl FileNotFoundError, fs') \<Rightarrow>
          if \<not> parents \<or> parent p = p then (Inl FileNotFoundError, fs')
          else (case mkdir (parent p) True True fs' of
                  (Inl e, fs'') \<Rightarrow> (Inl e, fs'')
                | (Inr _, fs'') \<Rightarrow> mkdir p False exist_ok fs'')
      | (Inl e, fs') \<Rightarrow>
          if \<not> exist_ok \<or> \<not> is_dir p fs' then (Inl e, fs') else (Inr (), fs'))"
  by pat_completeness auto
termination
  by (relation "measure (\<lambda>(p, parents, exist_ok, fs). 2 * length (tail p) + (if parents then 1 else 0))")
     (auto simp: parent_def, case_tac "tail p", auto)

text \<open>
  \<open>Path.write_text\<close>: the file is opened for writing, which creates it or empties it, and
  the text is written.
\<close>

definition write_text :: "path \<Rightarrow> pystr \<Rightarrow> unit io" where
  "write_text p data fs =
     (if tail p = [] then
        (case resolve_dir fs p of Inl e \<Rightarrow> (Inl e, fs) | Inr _ \<Rightarrow> (Inl IsADirectoryError, fs))
      else
        (case resolve_dir fs (parent p) of
           Inl e \<Rightarrow> (Inl e, fs)
         | Inr d \<Rightarrow>
             if last (tail p) = dotdot then (Inl IsADirectoryError, fs)
             else (case lookup fs (d @ [last (tail p)]) of
                     Some Dir \<Rightarrow> (Inl IsADirectoryError, fs)
                   | _ \<Rightarrow> (Inr (), fs\<lparr>nodes := (nodes fs)(d @ [last (tail p)] \<mapsto> File data)\<rparr>))))"

section \<open>The skill generator\<close>

text \<open>
  The five texts. \<open>today\<close> is the value of \<open>datetime.now().strftime('%Y-%m-%d')\<close> at
  the place where the text is built.
\<close>

definition dependencies_line :: "pystr \<Rightarrow> pystr" where
  "dependencies_line dependencies =
     (if dependencies \<noteq> [] then codes ''*Dependencies: '' @ dependencies @ codes ''*'' else [])"

definition skill_content :: "pystr \<Rightarrow> pystr \<Rightarrow> pystr \<Rightarrow> pystr \<Rightarrow> pystr \<Rightarrow> pystr \<Rightarrow> pystr \<Rightarrow> pystr \<Rightarrow> pystr" where
  "skill_content safe_name description skill_name purpose instructions examples today dependencies =
     codes ''---\<newline>'' @
     codes ''name: '' @ safe_name @ codes ''\<newline>'' @
     codes ''description: '' @ description @ codes ''\<newline>'' @
     codes ''---\<newline>'' @
     codes ''\<newline>'' @
     codes ''# '' @ skill_name @ codes ''\<newline>'' @
     codes ''\<newline>'' @
     codes ''## Overview\<newline>'' @
     codes ''\<newline>'' @
     purpose @ codes ''\<newline>'' @
     codes ''\<newline>'' @
     codes ''## When to Use This Skill\<newline>'' @
     codes ''\<newline>'' @
     codes ''Claude should activate this skill when:\<newline>'' @
     codes ''- '' @ description @ codes ''\<newline>'' @
     codes ''\<newline>'' @
     codes ''## Instructions\<newline>'' @
     codes ''\<newline>'' @
     instructions @ codes ''\<newline>'' @
     codes ''\<newline>'' @
     codes ''## Examples\<newline>'' @
     codes ''\<newline>'' @
     examples @ codes ''\<newline>'' @
     codes ''\<newline>'' @
     codes ''## Best Practices\<newline>'' @
     codes ''\<newline>'' @
     codes ''- Follow all instructions in sequence\<newline>'' @
     codes ''- Reference additional files in resources/ when needed\<newline>'' @
     codes ''- Use scripts/ for executable code that doesn't need to be in context\<newline>'' @
     codes ''- Keep responses focused and actionable\<newline>'' @
     codes ''\<newline>'' @
     codes ''## Additional Resources\<newline>'' @
     codes ''\<newline>'' @
     codes ''- See REFERENCE.md for detailed documentation\<newline>'' @
     codes ''- Check resources/ folder for templates and reference materials\<newline>'' @
     codes ''- Review scripts/ for utility code\<newline>'' @
     codes ''\<newline>'' @
     codes ''---\<newline>'' @
     codes ''*Created: '' @ today @ codes ''*\<newline>'' @
     codes ''*Version: 1.0.0*\<newline>'' @
     dependencies_line dependencies @ codes ''\<newline>''"

definition reference_content :: "pystr \<Rightarrow> pystr \<Rightarrow> pystr" where
  "reference_content skill_name today =
     codes ''# '' @ skill_name @ codes '' - Reference Documentation\<newline>'' @
     codes ''\<newline>'' @
     codes ''This file contains detailed information that doesn't need to be loaded immediately\<newline>'' @
     codes ''but can be referenced when needed.\<newline>'' @
     codes ''\<newline>'' @
     codes ''## Detailed Context\<newline>'' @
     codes ''\<newline>'' @
     codes ''[Add comprehensive background information here]\<newline>'' @
     codes ''\<newline>'' @
     codes ''## Advanced Usage\<newline>'' @
     codes ''\<newline>'' @
     codes ''[Document edge cases, advanced scenarios, and complex workflows]\<newline>'' @
     codes ''\<newline>'' @
     codes ''## Troubleshooting\<newline>'' @
     codes ''\<newline>'' @
     codes ''[Common issues and their solutions]\<newline>'' @
     codes ''\<newline>'' @
     codes ''## Related Resources\<newline>'' @
     codes ''\<newline>'' @
     codes ''- Additional documentation in resources/\<newline>'' @
     codes ''- Utility scripts in scripts/\<newline>'' @
     codes ''- External references: [Add relevant links]\<newline>'' @
     codes ''\<newline>'' @
     codes ''## Version History\<newline>'' @
     codes ''\<newline>'' @
     codes ''- v1.0.0 ('' @ today @ codes ''): Initial release\<newline>''"

definition resources_readme :: "pystr \<Rightarrow> pystr" where
  "resources_readme skill_name =
     codes ''# Resources for '' @ skill_name @ codes ''\<newline>'' @
     codes ''\<newline>'' @
     codes ''This directory contains supplemental files for the skill:\<newline>'' @
     codes ''\<newline>'' @
     codes ''- Templates\<newline>'' @
     codes ''- Reference data\<newline>'' @
     codes ''- Example files\<newline>'' @
     codes ''- Configuration samples\<newline>'' @
     codes ''\<newline>'' @
     codes ''Files here are loaded on-demand, so they don't count against the initial context budget.\<newline>''"

definition scripts_readme :: "pystr \<Rightarrow> pystr" where
  "scripts_readme skill_name =
     codes ''# Scripts for '' @ skill_name @ codes ''\<newline>'' @
     codes ''\<newline>'' @
     codes ''Executable code goes here. Scripts are run via bash, so only their output\<newline>'' @
     codes ''(not their code) consumes tokens.\<newline>'' @
     codes ''\<newline>'' @
     codes ''## Adding Scripts\<newline>'' @
     codes ''\<newline>'' @
     codes ''1. Create Python/shell scripts here\<newline>'' @
     codes ''2. Make them executable: `chmod +x script.py`\<newline>'' @
     codes ''3. Reference them in SKILL.md instructions\<newline>'' @
     codes ''4. Document their purpose and usage\<newline>'' @
     codes ''\<newline>'' @
     codes ''## Example\<newline>'' @
     codes ''\<newline>'' @
     codes ''```python\<newline>'' @
     codes ''#!/usr/bin/env python3\<newline>'' @
     codes ''# Description: What this script does\<newline>'' @
     codes ''\<newline>'' @
     codes ''def main():\<newline>'' @
     codes ''    # Your code here\<newline>'' @
     codes ''    pass\<newline>'' @
     codes ''\<newline>'' @
     codes ''if __name__ == \"__main__\":\<newline>'' @
     codes ''    main()\<newline>'' @
     codes ''```\<newline>''"

definition gitignore_content :: "pystr" where
  "gitignore_content =
     codes ''# Python\<newline>'' @
     codes ''__pycache__/\<newline>'' @
     codes ''*.py[cod]\<newline>'' @
     codes ''*$py.class\<newline>'' @
     codes ''*.so\<newline>'' @
     codes ''.Python\<newline>'' @
     codes ''\<newline>'' @
     codes ''# Virtual environments\<newline>'' @
     codes ''venv/\<newline>'' @
     codes ''env/\<newline>'' @
     codes ''\<newline>'' @
     codes ''# IDE\<newline>'' @
     codes ''.vscode/\<newline>'' @
     codes ''.idea/\<newline>'' @
     codes ''\<newline>'' @
     codes ''# OS\<newline>'' @
     codes ''.DS_Store\<newline>'' @
     codes ''Thumbs.db\<newline>''"

definition long_message :: pystr where
  "long_message = codes ''Description must be 1024 characters or less''"

definition empty_message :: pystr where
  "empty_message = codes ''Description cannot be empty''"

text \<open>
  \<open>create_skill\<close>. \<open>install_path\<close> is \<open>None\<close> or a string; \<open>today1\<close> and \<open>today2\<close>
  are the dates read for \<open>SKILL.md\<close> and for \<open>REFERENCE.md\<close>. The result is the
  exception raised or the path returned, with the file system as the call leaves it. What
  the function prints is not part of the model.
\<close>

definition skill_dir_of :: "pystr option \<Rightarrow> pystr \<Rightarrow> path" where
  "skill_dir_of install_path safe_name =
     (case install_path of
        None \<Rightarrow> Path (codes ''./'' @ safe_name)
      | Some ip \<Rightarrow> if ip \<noteq> [] then joinpath (Path ip) safe_name
                   else Path (codes ''./'' @ safe_name))"

definition create_skill ::
  "pystr \<Rightarrow> pystr \<Rightarrow> pystr \<Rightarrow> pystr \<Rightarrow> pystr \<Rightarrow> pystr \<Rightarrow> pystr option \<Rightarrow> pystr \<Rightarrow> pystr \<Rightarrow> path io" where
  "create_skill skill_name description purpose instructions examples dependencies install_path
       today1 today2 =
     (case sanitize_name skill_name of
        Inl e \<Rightarrow> raise e
      | Inr safe_name \<Rightarrow>
          if length description > 1024 then raise (ValueError long_message)
          else if strip description = [] then raise (ValueError empty_message)
          else
            (let skill_dir = skill_dir_of install_path safe_name in
             seq (mkdir skill_dir True True)
            (seq (mkdir (joinpath skill_dir (codes ''resources'')) False True)
            (seq (mkdir (joinpath skill_dir (codes ''scripts'')) False True)
            (seq (write_text (joinpath skill_dir (codes ''SKILL.md''))
                    (skill_content safe_name description skill_name purpose instructions
                       examples today1 dependencies))
            (seq (write_text (joinpath skill_dir (codes ''REFERENCE.md''))
                    (reference_content skill_name today2))
            (seq (write_text (joinpath (joinpath skill_dir (codes ''resources'')) (codes ''README.md''))
                    (resources_readme skill_name))
            (seq (write_text (joinpath (joinpath skill_dir (codes ''scripts'')) (codes ''README.md''))
                    (scripts_readme skill_name))
            (seq (write_text (joinpath skill_dir (codes ''.gitignore'')) gitignore_content)
                 (return skill_dir))))))))))"

section \<open>Relations between file system states\<close>

text \<open>A file system keeps the directories of another and its working directory.\<close>

definition dirs_kept :: "filesystem \<Rightarrow> filesystem \<Rightarrow> bool" where
  "dirs_kept fs fs' \<longleftrightarrow>
     cwd fs' = cwd fs \<and> (\<forall>q. nodes fs q = Some Dir \<longrightarrow> nodes fs' q = Some Dir)"

text \<open>A file system differs from another only by directories that are new.\<close>

definition only_dirs_added :: "filesystem \<Rightarrow> filesystem \<Rightarrow> bool" where
  "only_dirs_added fs fs' \<longleftrightarrow>
     cwd fs' = cwd fs \<and>
     (\<forall>q. nodes fs' q = nodes fs q \<or> (nodes fs q = None \<and> nodes fs' q = Some Dir))"

text \<open>The directory from which the walk along a path starts.\<close>

definition base_dir :: "filesystem \<Rightarrow> path \<Rightarrow> pystr list" where
  "base_dir fs p = (if root p \<noteq> [] then [] else cwd fs)"

text \<open>
  The statements of \<open>create_skill\<close> that follow the creation of the target directory,
  for the four texts that depend on the arguments.
\<close>

definition fill_tree :: "path \<Rightarrow> pystr \<Rightarrow> pystr \<Rightarrow> pystr \<Rightarrow> pystr \<Rightarrow> path io" where
  "fill_tree skill_dir skill_md reference_md resources_md scripts_md =
     seq (mkdir (joinpath skill_dir (codes ''resources'')) False True)
    (seq (mkdir (joinpath skill_dir (codes ''scripts'')) False True)
    (seq (write_text (joinpath skill_dir (codes ''SKILL.md'')) skill_md)
    (seq (write_text (joinpath skill_dir (codes ''REFERENCE.md'')) reference_md)
    (seq (write_text (joinpath (joinpath skill_dir (codes ''resources'')) (codes ''README.md''))
            resources_md)
    (seq (write_text (joinpath (joinpath skill_dir (codes ''scripts'')) (codes ''README.md''))
            scripts_md)
    (seq (write_text (joinpath skill_dir (codes ''.gitignore'')) gitignore_content)
         (return skill_dir)))))))"

text \<open>The file system after the five texts have been written below the location \<open>t\<close>.\<close>

definition with_files ::
  "filesystem \<Rightarrow> pystr list \<Rightarrow> pystr \<Rightarrow> pystr \<Rightarrow> pystr \<Rightarrow> pystr \<Rightarrow> filesystem" where
  "with_files fs t skill_md reference_md resources_md scripts_md =
     fs\<lparr>nodes := (nodes fs)
       (t @ [codes ''SKILL.md''] \<mapsto> File skill_md,
        t @ [codes ''REFERENCE.md''] \<mapsto> File reference_md,
        t @ [codes ''resources'', codes ''README.md''] \<mapsto> File resources_md,
        t @ [codes ''scripts'', codes ''README.md''] \<mapsto> File scripts_md,
        t @ [codes ''.gitignore''] \<mapsto> File gitignore_content)\<rparr>"

text \<open>The locations of the five files below \<open>t\<close>.\<close>

definition file_locations :: "pystr list \<Rightarrow> pystr list set" where
  "file_locations t =
     {t @ [codes ''SKILL.md''], t @ [codes ''REFERENCE.md''],
      t @ [codes ''resources'', codes ''README.md''], t @ [codes ''scripts'', codes ''README.md''],
      t @ [codes ''.gitignore'']}"

text \<open>The statements of \<open>create_skill\<close> that write the five texts.\<close>

definition after_dirs :: "path \<Rightarrow> pystr \<Rightarrow> pystr \<Rightarrow> pystr \<Rightarrow> pystr \<Rightarrow> path io" where
  "after_dirs sd c1 c2 c3 c4 =
     seq (write_text (joinpath sd (codes ''SKILL.md'')) c1)
    (seq (write_text (joinpath sd (codes ''REFERENCE.md'')) c2)
    (seq (write_text (joinpath (joinpath sd (codes ''resources'')) (codes ''README.md'')) c3)
    (seq (write_text (joinpath (joinpath sd (codes ''scripts'')) (codes ''README.md'')) c4)
    (seq (write_text (joinpath sd (codes ''.gitignore'')) gitignore_content)
         (return sd)))))"

text \<open>
  A small file system for the examples: the working directory \<open>/home\<close> and nothing else.
\<close>

definition example_fs :: filesystem where
  "example_fs = \<lparr>cwd = [codes ''home''], nodes = [[codes ''home''] \<mapsto> Dir]\<rparr>"

text \<open>The two directories below the location \<open>t\<close> added to a file system.\<close>

definition with_dirs :: "filesystem \<Rightarrow> pystr list \<Rightarrow> filesystem" where
  "with_dirs fs t =
     fs\<lparr>nodes := (nodes fs)(t @ [codes ''resources''] \<mapsto> Dir, t @ [codes ''scripts''] \<mapsto> Dir)\<rparr>"

section \<open>Properties of the string operations\<close>

lemma strip_by_sublist: "sublist (strip_by P s) s"
proof -
  have "sublist (strip_by P s) (dropWhile P s)"
    unfolding strip_by_def by (simp add: sublist_rev_left)
  moreover have "sublist (dropWhile P s) s" by simp
  ultimately show ?thesis by (rule sublist_order.order_trans)
qed

lemma strip_by_dropWhile: "\<exists>w. dropWhile P s = strip_by P s @ w"
  unfolding strip_by_def
  by (metis rev_append rev_rev_ident takeWhile_dropWhile_id)

lemma strip_by_first: "strip_by P s = x # r \<Longrightarrow> \<not> P x"
proof -
  assume r: "strip_by P s = x # r"
  obtain w where "dropWhile P s = strip_by P s @ w"
    using strip_by_dropWhile by blast
  with r have "dropWhile P s = x # (r @ w)" by simp
  then show ?thesis using hd_dropWhile [of P s] by auto
qed

lemma strip_by_last: "strip_by P s = r @ [x] \<Longrightarrow> \<not> P x"
proof -
  assume "strip_by P s = r @ [x]"
  then have "dropWhile P (rev (dropWhile P s)) = x # rev r"
    by (simp add: strip_by_def rev_swap)
  then show ?thesis using hd_dropWhile [of P "rev (dropWhile P s)"] by auto
qed

lemma strip_by_Nil: "strip_by P s = [] \<longleftrightarrow> (\<forall>c\<in>set s. P c)"
proof
  assume "strip_by P s = []"
  then have "\<forall>x\<in>set (dropWhile P s). P x"
    by (simp add: strip_by_def dropWhile_eq_Nil_conv)
  then have "dropWhile P s = []"
    using hd_dropWhile [of P s] hd_in_set [of "dropWhile P s"] by blast
  then show "\<forall>c\<in>set s. P c" by (simp add: dropWhile_eq_Nil_conv)
next
  assume "\<forall>c\<in>set s. P c"
  then show "strip_by P s = []" by (auto simp: strip_by_def dest: set_dropWhileD)
qed

lemma dropWhile_first: "\<forall>x r. s = x # r \<longrightarrow> \<not> P x \<Longrightarrow> dropWhile P s = s"
  by (cases s) auto

lemma strip_by_fixed:
  assumes "\<forall>x r. s = x # r \<longrightarrow> \<not> P x" and "\<forall>x r. s = r @ [x] \<longrightarrow> \<not> P x"
  shows "strip_by P s = s"
proof -
  have "\<forall>x r. rev s = x # r \<longrightarrow> \<not> P x"
    using assms(2) by (auto simp: rev_swap)
  then have "dropWhile P (rev s) = rev s" by (rule dropWhile_first)
  moreover have "dropWhile P s = s" using assms(1) by (rule dropWhile_first)
  ultimately show ?thesis by (simp add: strip_by_def)
qed

lemma re_sub_invalid_filter: "re_sub_invalid s = filter slug_char s"
  unfolding re_sub_invalid_def by (induction s) auto

lemma collapse_hyphen_Cons:
  "collapse_hyphens (hyphen # cs) = hyphen # collapse_hyphens (dropWhile (\<lambda>d. d = hyphen) cs)"
proof (induction cs)
  case Nil
  show ?case by simp
next
  case (Cons b cs)
  show ?case
  proof (cases "b = hyphen")
    case True
    with Cons show ?thesis by simp
  next
    case False
    then show ?thesis by simp
  qed
qed

lemma collapse_other_Cons: "c \<noteq> hyphen \<Longrightarrow> collapse_hyphens (c # cs) = c # collapse_hyphens cs"
  by (cases cs) auto

lemma re_sub_hyphens_collapse: "re_sub_hyphens s = collapse_hyphens s"
proof (induction s rule: re_sub_hyphens.induct)
  case 1
  show ?case by simp
next
  case (2 c cs)
  then show ?case
    by (cases "c = hyphen")
       (simp_all add: collapse_hyphen_Cons collapse_other_Cons del: collapse_hyphens.simps)
qed

lemma trim_leading_dropWhile: "trim_leading s = dropWhile (\<lambda>d. d = hyphen) s"
  by (induction s) auto

lemma trim_trailing_dropWhile: "trim_trailing s = rev (dropWhile (\<lambda>d. d = hyphen) (rev s))"
proof (induction s)
  case Nil
  show ?case by simp
next
  case (Cons c cs)
  show ?case
    by (simp add: Cons Let_def dropWhile_append)
qed

lemma codes_hyphen: "codes ''-'' = [hyphen]"
  by (simp add: codes_def hyphen_def)

lemma strip_hyphen_trim: "strip_chars (codes ''-'') s = trim_trailing (trim_leading s)"
  by (simp add: strip_chars_def strip_by_def codes_hyphen trim_leading_dropWhile
      trim_trailing_dropWhile)

lemma clean_name_spec: "clean_name s = spec_normalize s"
  by (simp add: clean_name_def spec_normalize_def Let_def re_sub_invalid_filter replace_def
      re_sub_hyphens_collapse strip_hyphen_trim)

lemma set_re_sub_hyphens: "set (re_sub_hyphens s) \<subseteq> set s"
  by (induction s rule: re_sub_hyphens.induct) (auto dest: set_dropWhileD)

lemma re_sub_hyphens_Nil: "re_sub_hyphens s = [] \<longleftrightarrow> s = []"
  by (cases s) auto

lemma hd_re_sub_hyphens: "hd (re_sub_hyphens s) = hd s"
  by (cases s) auto

lemma no_double_re_sub_hyphens: "\<not> sublist [hyphen, hyphen] (re_sub_hyphens s)"
proof (induction s rule: re_sub_hyphens.induct)
  case 1
  show ?case by simp
next
  case (2 c cs)
  show ?case
  proof (cases "c = hyphen")
    case True
    let ?t = "dropWhile (\<lambda>d. d = hyphen) cs"
    have "\<not> prefix [hyphen] (re_sub_hyphens ?t)"
    proof
      assume "prefix [hyphen] (re_sub_hyphens ?t)"
      then have "re_sub_hyphens ?t \<noteq> []" and "hd (re_sub_hyphens ?t) = hyphen"
        by (auto simp: prefix_def)
      then have "?t \<noteq> []" "hd ?t = hyphen"
        by (simp_all add: re_sub_hyphens_Nil hd_re_sub_hyphens)
      then show False using hd_dropWhile [of "\<lambda>d. d = hyphen" cs] by simp
    qed
    with True 2 show ?thesis by (simp add: sublist_Cons_right)
  next
    case False
    with 2 show ?thesis by (simp add: sublist_Cons_right)
  qed
qed

section \<open>Properties of the sanitizer\<close>

lemma clean_name_chars: "c \<in> set (clean_name s) \<Longrightarrow> slug_char c"
proof -
  assume "c \<in> set (clean_name s)"
  then have "c \<in> set (re_sub_hyphens (re_sub_invalid (replace space hyphen (lower s))))"
    using set_mono_sublist [OF strip_by_sublist]
    unfolding clean_name_def Let_def strip_chars_def by blast
  then have "c \<in> set (re_sub_invalid (replace space hyphen (lower s)))"
    using set_re_sub_hyphens by blast
  then show ?thesis by (simp add: re_sub_invalid_filter)
qed

lemma clean_name_no_double: "\<not> sublist [hyphen, hyphen] (clean_name s)"
  using no_double_re_sub_hyphens strip_by_sublist sublist_order.order_trans
  unfolding clean_name_def Let_def strip_chars_def by blast

lemma clean_name_no_prefix: "\<not> prefix [hyphen] (clean_name s)"
proof
  assume "prefix [hyphen] (clean_name s)"
  then obtain r where "clean_name s = hyphen # r" by (auto simp: prefix_def)
  then show False
    unfolding clean_name_def Let_def strip_chars_def codes_hyphen
    by (auto dest: strip_by_first)
qed

lemma clean_name_no_suffix: "\<not> suffix [hyphen] (clean_name s)"
proof
  assume "suffix [hyphen] (clean_name s)"
  then obtain r where "clean_name s = r @ [hyphen]" by (auto simp: suffix_def)
  then show False
    unfolding clean_name_def Let_def strip_chars_def codes_hyphen
    by (auto dest: strip_by_last)
qed

lemma lower_fixed: "\<forall>c\<in>set r. lower_cp c = [c] \<Longrightarrow> lower r = r"
  unfolding lower_def by (induction r) auto

lemma slug_char_lower_cp: "slug_char c \<Longrightarrow> lower_cp c = [c]"
  by (auto simp: slug_char_def lower_cp_def hyphen_def)

lemma slug_char_not_space: "slug_char c \<Longrightarrow> c \<noteq> space"
  by (auto simp: slug_char_def space_def hyphen_def)

lemma collapse_fixed: "\<not> sublist [hyphen, hyphen] r \<Longrightarrow> collapse_hyphens r = r"
proof (induction r rule: collapse_hyphens.induct)
  case (1 a b cs)
  from "1.prems" have "\<not> sublist [hyphen, hyphen] (b # cs)" and "\<not> (a = hyphen \<and> b = hyphen)"
    by (auto simp: sublist_Cons_right)
  with 1 show ?case by auto
qed simp_all

text \<open>A name in normal form is left as it is by the three assignments.\<close>

lemma clean_name_fixed:
  assumes "\<forall>c\<in>set r. slug_char c" "\<not> sublist [hyphen, hyphen] r"
    "\<not> prefix [hyphen] r" "\<not> suffix [hyphen] r"
  shows "clean_name r = r"
proof -
  have 1: "lower r = r" using assms(1) by (simp add: lower_fixed slug_char_lower_cp)
  have 2: "replace space hyphen r = r"
    unfolding replace_def using assms(1) slug_char_not_space by (intro map_idI) auto
  have 3: "re_sub_invalid r = r" using assms(1) by (simp add: re_sub_invalid_filter)
  have 4: "re_sub_hyphens r = r"
    using assms(2) by (simp add: re_sub_hyphens_collapse collapse_fixed)
  have 5: "strip_chars (codes ''-'') r = r"
    unfolding strip_chars_def codes_hyphen
    using assms(3,4) by (intro strip_by_fixed) (auto simp: prefix_def suffix_def)
  show ?thesis by (simp add: clean_name_def Let_def 1 2 3 4 5)
qed

lemma clean_name_idem: "clean_name (clean_name s) = clean_name s"
proof (rule clean_name_fixed)
  show "\<forall>c\<in>set (clean_name s). slug_char c" using clean_name_chars by blast
  show "\<not> sublist [hyphen, hyphen] (clean_name s)" by (rule clean_name_no_double)
  show "\<not> prefix [hyphen] (clean_name s)" by (rule clean_name_no_prefix)
  show "\<not> suffix [hyphen] (clean_name s)" by (rule clean_name_no_suffix)
qed

lemma sanitize_name_Inr:
  "sanitize_name s = Inr r \<longleftrightarrow>
     clean_name s = r \<and> \<not> sublist (codes ''anthropic'') r \<and> \<not> sublist (codes ''claude'') r \<and>
     length r \<le> 64"
  by (auto simp: sanitize_name_def Let_def)

lemma sanitize_name_cases:
  "(\<exists>m. sanitize_name s = Inl (ValueError m)) \<or> sanitize_name s = Inr (clean_name s)"
  by (simp add: sanitize_name_def Let_def)

lemma repeat_single: "concat (replicate n (codes [x])) = replicate n (of_char x)"
  by (induction n) (auto simp: codes_def)

lemma sublist_replicate: "sublist w (replicate n c) \<Longrightarrow> set w \<subseteq> {c}"
  by (auto dest!: set_mono_sublist)

lemma clean_name_replicate:
  assumes "slug_char c" "c \<noteq> hyphen"
  shows "clean_name (replicate n c) = replicate n c"
proof (rule clean_name_fixed)
  show "\<forall>x\<in>set (replicate n c). slug_char x" using assms(1) by simp
  show "\<not> sublist [hyphen, hyphen] (replicate n c)"
    using assms(2) sublist_replicate [of "[hyphen, hyphen]" n c] by auto
  show "\<not> prefix [hyphen] (replicate n c)"
    using assms(2) sublist_replicate [of "[hyphen]" n c] by auto
  show "\<not> suffix [hyphen] (replicate n c)"
    using assms(2) sublist_replicate [of "[hyphen]" n c] by auto
qed

lemma sanitize_name_replicate:
  assumes "slug_char c" "c \<noteq> hyphen" "c \<noteq> 110" "c \<noteq> 99" "n > 64"
  shows "sanitize_name (replicate n c) = Inl (ValueError length_message)"
proof -
  have "\<not> sublist (codes ''anthropic'') (replicate n c)"
    using assms(3) sublist_replicate [of "codes ''anthropic''" n c] by (auto simp: codes_def)
  moreover have "\<not> sublist (codes ''claude'') (replicate n c)"
    using assms(4) sublist_replicate [of "codes ''claude''" n c] by (auto simp: codes_def)
  ultimately show ?thesis
    using assms(5)
    by (simp add: sanitize_name_def Let_def clean_name_replicate [OF assms(1,2)])
qed

section \<open>Properties of paths\<close>

lemma split_on_no_sep: "sep \<notin> set s \<Longrightarrow> split_on sep s = [s]"
  by (induction s) auto

lemma Path_plain:
  assumes "slash \<notin> set s" "s \<noteq> []" "s \<noteq> dot"
  shows "Path s = \<lparr>root = [], tail = [s]\<rparr>"
proof -
  have "take 1 s \<noteq> [slash]" using assms(1) by (cases s) auto
  then show ?thesis using assms by (simp add: Path_def splitroot_def split_on_no_sep)
qed

lemma joinpath_plain:
  assumes "slash \<notin> set s" "s \<noteq> []" "s \<noteq> dot"
  shows "joinpath p s = p\<lparr>tail := tail p @ [s]\<rparr>"
  by (simp add: joinpath_def Path_plain [OF assms])

lemma joinpath_empty: "joinpath p [] = p"
  by (simp add: joinpath_def Path_def splitroot_def)

lemma slug_not_slash: "slug_char c \<Longrightarrow> c \<noteq> slash"
  by (auto simp: slug_char_def slash_def hyphen_def)

lemma slug_name_plain:
  assumes "\<forall>c\<in>set s. slug_char c"
  shows "slash \<notin> set s" and "s \<noteq> dot" and "s \<noteq> dotdot"
  using assms by (auto simp: dot_def dotdot_def slug_char_def slash_def hyphen_def)

lemma Path_dot_slash:
  assumes "\<forall>c\<in>set s. slug_char c"
  shows "Path (codes ''./'' @ s) = \<lparr>root = [], tail = (if s = [] then [] else [s])\<rparr>"
proof -
  have c: "codes ''./'' @ s = 46 # 47 # s" by (simp add: codes_def)
  have "split_on 47 s = [s]"
    using slug_name_plain(1) [OF assms] by (simp add: slash_def split_on_no_sep)
  moreover have "s \<noteq> [46]" using slug_name_plain(2) [OF assms] by (simp add: dot_def)
  ultimately show ?thesis
    unfolding c by (simp add: Path_def splitroot_def slash_def dot_def)
qed

lemma joinpath_slug:
  assumes "\<forall>c\<in>set s. slug_char c"
  shows "joinpath p s = p\<lparr>tail := tail p @ (if s = [] then [] else [s])\<rparr>"
proof (cases "s = []")
  case True
  then show ?thesis by (simp add: joinpath_empty)
next
  case False
  then show ?thesis
    using joinpath_plain [OF slug_name_plain(1) [OF assms] False slug_name_plain(2) [OF assms]]
    by simp
qed

lemma skill_dir_of_slug:
  assumes "\<forall>c\<in>set s. slug_char c"
  shows "skill_dir_of ip s =
     \<lparr>root = (case ip of None \<Rightarrow> [] | Some x \<Rightarrow> root (Path x)),
      tail = (case ip of None \<Rightarrow> [] | Some x \<Rightarrow> tail (Path x)) @ (if s = [] then [] else [s])\<rparr>"
proof (cases ip)
  case None
  then show ?thesis by (simp add: skill_dir_of_def Path_dot_slash [OF assms])
next
  case (Some x)
  show ?thesis
  proof (cases "x = []")
    case True
    with Some show ?thesis
      by (simp add: skill_dir_of_def Path_dot_slash [OF assms]) (simp add: Path_def splitroot_def)
  next
    case False
    with Some show ?thesis
      by (simp add: skill_dir_of_def joinpath_slug [OF assms])
  qed
qed

lemma root_Path: "root (Path s) \<noteq> [] \<longleftrightarrow> take 1 s = [slash]"
  by (simp add: Path_def splitroot_def)

text \<open>The fixed names the generator appends to the target directory.\<close>

lemma join_resources: "joinpath p (codes ''resources'') = p\<lparr>tail := tail p @ [codes ''resources'']\<rparr>"
  by (rule joinpath_plain) (simp_all add: codes_def slash_def dot_def)

lemma join_scripts: "joinpath p (codes ''scripts'') = p\<lparr>tail := tail p @ [codes ''scripts'']\<rparr>"
  by (rule joinpath_plain) (simp_all add: codes_def slash_def dot_def)

lemma join_skill_md: "joinpath p (codes ''SKILL.md'') = p\<lparr>tail := tail p @ [codes ''SKILL.md'']\<rparr>"
  by (rule joinpath_plain) (simp_all add: codes_def slash_def dot_def)

lemma join_reference_md:
  "joinpath p (codes ''REFERENCE.md'') = p\<lparr>tail := tail p @ [codes ''REFERENCE.md'']\<rparr>"
  by (rule joinpath_plain) (simp_all add: codes_def slash_def dot_def)

lemma join_readme_md: "joinpath p (codes ''README.md'') = p\<lparr>tail := tail p @ [codes ''README.md'']\<rparr>"
  by (rule joinpath_plain) (simp_all add: codes_def slash_def dot_def)

lemma join_gitignore: "joinpath p (codes ''.gitignore'') = p\<lparr>tail := tail p @ [codes ''.gitignore'']\<rparr>"
  by (rule joinpath_plain) (simp_all add: codes_def slash_def dot_def)

lemmas join_names =
  join_resources join_scripts join_skill_md join_reference_md join_readme_md join_gitignore

lemma names_not_dotdot:
  "codes ''resources'' \<noteq> dotdot" "codes ''scripts'' \<noteq> dotdot" "codes ''SKILL.md'' \<noteq> dotdot"
  "codes ''REFERENCE.md'' \<noteq> dotdot" "codes ''README.md'' \<noteq> dotdot"
  "codes ''.gitignore'' \<noteq> dotdot"
  by (simp_all add: codes_def dotdot_def)

lemma names_distinct:
  "codes ''SKILL.md'' \<noteq> codes ''REFERENCE.md''" "codes ''SKILL.md'' \<noteq> codes ''.gitignore''"
  "codes ''SKILL.md'' \<noteq> codes ''resources''" "codes ''SKILL.md'' \<noteq> codes ''scripts''"
  "codes ''REFERENCE.md'' \<noteq> codes ''.gitignore''" "codes ''REFERENCE.md'' \<noteq> codes ''resources''"
  "codes ''REFERENCE.md'' \<noteq> codes ''scripts''" "codes ''.gitignore'' \<noteq> codes ''resources''"
  "codes ''.gitignore'' \<noteq> codes ''scripts''" "codes ''resources'' \<noteq> codes ''scripts''"
  by (simp_all add: codes_def)

section \<open>Properties of the file system calls\<close>

declare mkdir.simps [simp del]

lemma walk_append:
  "walk fs cur (xs @ ys) = (case walk fs cur xs of Inl e \<Rightarrow> Inl e | Inr d \<Rightarrow> walk fs d ys)"
  by (induction xs arbitrary: cur) (auto split: option.splits node.splits)

lemma walk_single:
  "c \<noteq> dotdot \<Longrightarrow> walk fs d [c] = Inr t \<longleftrightarrow> t = d @ [c] \<and> nodes fs (d @ [c]) = Some Dir"
  by (auto simp: lookup_def split: option.splits node.splits)

lemma resolve_dir_snoc:
  "resolve_dir fs (p\<lparr>tail := tail p @ [c]\<rparr>) =
     (case resolve_dir fs p of Inl e \<Rightarrow> Inl e | Inr d \<Rightarrow> walk fs d [c])"
  by (simp add: resolve_dir_def walk_append split: option.splits node.splits)

lemma parent_snoc: "parent (p\<lparr>tail := tail p @ [c]\<rparr>) = p"
  by (simp add: parent_def)

lemma path_snoc: "tail p \<noteq> [] \<Longrightarrow> p = (parent p)\<lparr>tail := tail (parent p) @ [last (tail p)]\<rparr>"
  by (simp add: parent_def)

lemma dirs_kept_refl: "dirs_kept fs fs"
  by (simp add: dirs_kept_def)

lemma dirs_kept_trans: "dirs_kept a b \<Longrightarrow> dirs_kept b c \<Longrightarrow> dirs_kept a c"
  by (simp add: dirs_kept_def)

lemma walk_kept:
  "dirs_kept fs fs' \<Longrightarrow> walk fs cur xs = Inr t \<Longrightarrow> walk fs' cur xs = Inr t"
proof (induction xs arbitrary: cur)
  case Nil
  then show ?case by simp
next
  case (Cons c cs)
  show ?case
  proof (cases "c = dotdot")
    case True
    with Cons show ?thesis by simp
  next
    case False
    with Cons.prems(2) have d: "lookup fs (cur @ [c]) = Some Dir" and w: "walk fs (cur @ [c]) cs = Inr t"
      by (auto split: option.splits node.splits)
    from d Cons.prems(1) have "lookup fs' (cur @ [c]) = Some Dir"
      by (simp add: lookup_def dirs_kept_def)
    with False Cons.IH [OF Cons.prems(1) w] show ?thesis by simp
  qed
qed

lemma resolve_dir_kept:
  assumes "dirs_kept fs fs'" "resolve_dir fs p = Inr t"
  shows "resolve_dir fs' p = Inr t"
proof (cases "root p \<noteq> []")
  case True
  with assms show ?thesis by (simp add: resolve_dir_def walk_kept)
next
  case False
  with assms(2) have c: "lookup fs (cwd fs) = Some Dir" and w: "walk fs (cwd fs) (tail p) = Inr t"
    by (auto simp: resolve_dir_def split: option.splits node.splits)
  from c assms(1) have "lookup fs' (cwd fs') = Some Dir"
    by (auto simp: lookup_def dirs_kept_def)
  moreover have "cwd fs' = cwd fs" using assms(1) by (simp add: dirs_kept_def)
  ultimately show ?thesis
    using False walk_kept [OF assms(1) w] by (simp add: resolve_dir_def)
qed

lemma only_dirs_added_refl: "only_dirs_added fs fs"
  by (simp add: only_dirs_added_def)

lemma only_dirs_added_trans:
  assumes "only_dirs_added a b" "only_dirs_added b c"
  shows "only_dirs_added a c"
  unfolding only_dirs_added_def
proof (intro conjI allI)
  show "cwd c = cwd a" using assms by (simp add: only_dirs_added_def)
  fix q
  from assms have "nodes b q = nodes a q \<or> (nodes a q = None \<and> nodes b q = Some Dir)"
    and "nodes c q = nodes b q \<or> (nodes b q = None \<and> nodes c q = Some Dir)"
    by (simp_all add: only_dirs_added_def)
  then show "nodes c q = nodes a q \<or> (nodes a q = None \<and> nodes c q = Some Dir)"
    by auto
qed

lemma only_dirs_added_kept: "only_dirs_added fs fs' \<Longrightarrow> dirs_kept fs fs'"
  unfolding only_dirs_added_def dirs_kept_def by (metis option.distinct(1))

lemma only_dirs_added_new:
  "nodes fs t = None \<Longrightarrow> only_dirs_added fs (fs\<lparr>nodes := (nodes fs)(t \<mapsto> Dir)\<rparr>)"
  by (simp add: only_dirs_added_def)

lemma os_mkdir_Inl: "os_mkdir p fs = (Inl e, fs') \<Longrightarrow> fs' = fs"
  by (auto simp: os_mkdir_def split: if_splits sum.splits option.splits)

lemma os_mkdir_Inr:
  assumes "os_mkdir p fs = (Inr u, fs')"
  shows "\<exists>d. tail p \<noteq> [] \<and> last (tail p) \<noteq> dotdot \<and> resolve_dir fs (parent p) = Inr d \<and>
             nodes fs (d @ [last (tail p)]) = None \<and>
             fs' = fs\<lparr>nodes := (nodes fs)(d @ [last (tail p)] \<mapsto> Dir)\<rparr>"
  using assms
  by (auto simp: os_mkdir_def lookup_def split: if_splits sum.splits option.splits)

lemma os_mkdir_resolves:
  assumes "os_mkdir p fs = (Inr u, fs')"
  shows "\<exists>t. resolve_dir fs' p = Inr t \<and> nodes fs t = None \<and> fs' = fs\<lparr>nodes := (nodes fs)(t \<mapsto> Dir)\<rparr>"
proof -
  from os_mkdir_Inr [OF assms] obtain d where ne: "tail p \<noteq> []" and nd: "last (tail p) \<noteq> dotdot"
    and rd: "resolve_dir fs (parent p) = Inr d" and free: "nodes fs (d @ [last (tail p)]) = None"
    and fs': "fs' = fs\<lparr>nodes := (nodes fs)(d @ [last (tail p)] \<mapsto> Dir)\<rparr>"
    by blast
  have "dirs_kept fs fs'"
    unfolding fs' using free by (intro only_dirs_added_kept only_dirs_added_new)
  then have "resolve_dir fs' (parent p) = Inr d" using rd by (rule resolve_dir_kept)
  moreover have "nodes fs' (d @ [last (tail p)]) = Some Dir" by (simp add: fs')
  then have "walk fs' d [last (tail p)] = Inr (d @ [last (tail p)])"
    using walk_single [OF nd, of fs' d "d @ [last (tail p)]"] by blast
  ultimately have "resolve_dir fs' ((parent p)\<lparr>tail := tail (parent p) @ [last (tail p)]\<rparr>)
      = Inr (d @ [last (tail p)])"
    by (simp add: resolve_dir_snoc del: walk.simps)
  then have "resolve_dir fs' p = Inr (d @ [last (tail p)])"
    using path_snoc [OF ne] by simp
  with free fs' show ?thesis by blast
qed

lemma os_mkdir_exists:
  assumes "resolve_dir fs p = Inr t"
  shows "os_mkdir p fs = (Inl FileExistsError, fs)"
proof (cases "tail p = []")
  case True
  with assms show ?thesis by (simp add: os_mkdir_def)
next
  case False
  let ?c = "last (tail p)"
  from assms path_snoc [OF False]
  have "resolve_dir fs ((parent p)\<lparr>tail := tail (parent p) @ [?c]\<rparr>) = Inr t" by simp
  then obtain d where d: "resolve_dir fs (parent p) = Inr d" and w: "walk fs d [?c] = Inr t"
    by (auto simp: resolve_dir_snoc split: sum.splits)
  show ?thesis
  proof (cases "?c = dotdot")
    case True
    with False d show ?thesis by (simp add: os_mkdir_def)
  next
    case nd: False
    with w have "lookup fs (d @ [?c]) = Some Dir"
      using walk_single [of ?c fs d t] by (simp add: lookup_def del: walk.simps)
    with False d nd show ?thesis by (simp add: os_mkdir_def)
  qed
qed

lemma mkdir_ok: "os_mkdir p fs = (Inr u, fs') \<Longrightarrow> mkdir p par eo fs = (Inr u, fs')"
  by (subst mkdir.simps) simp

lemma mkdir_missing:
  "os_mkdir p fs = (Inl FileNotFoundError, fs') \<Longrightarrow>
   mkdir p par eo fs =
     (if \<not> par \<or> parent p = p then (Inl FileNotFoundError, fs)
      else (case mkdir (parent p) True True fs of
              (Inl e, fs'') \<Rightarrow> (Inl e, fs'')
            | (Inr _, fs'') \<Rightarrow> mkdir p False eo fs''))"
  using os_mkdir_Inl [of p fs FileNotFoundError fs']
  by (subst mkdir.simps) simp

lemma mkdir_other:
  "os_mkdir p fs = (Inl e, fs') \<Longrightarrow> e \<noteq> FileNotFoundError \<Longrightarrow>
   mkdir p par eo fs = (if \<not> eo \<or> \<not> is_dir p fs then (Inl e, fs) else (Inr (), fs))"
  using os_mkdir_Inl [of p fs e fs']
  by (subst mkdir.simps) (auto split: error.splits)

lemma mkdir_existing:
  assumes "resolve_dir fs p = Inr t"
  shows "mkdir p par True fs = (Inr (), fs)"
  using mkdir_other [OF os_mkdir_exists [OF assms], of par True] assms
  by (simp add: is_dir_def)

lemma mkdir_only_dirs_added: "mkdir p par eo fs = (r, fs') \<Longrightarrow> only_dirs_added fs fs'"
proof (induction p par eo fs arbitrary: r fs' rule: mkdir.induct)
  case (1 p parents exist_ok fs)
  obtain x y where om: "os_mkdir p fs = (x, y)" by (cases "os_mkdir p fs")
  show ?case
  proof (cases x)
    case (Inr u)
    with om "1.prems" have "fs' = y" by (simp add: mkdir_ok)
    moreover obtain t where "nodes fs t = None" "y = fs\<lparr>nodes := (nodes fs)(t \<mapsto> Dir)\<rparr>"
      using os_mkdir_resolves om Inr by blast
    ultimately show ?thesis by (simp add: only_dirs_added_new)
  next
    case (Inl e)
    with om have y: "y = fs" by (simp add: os_mkdir_Inl)
    show ?thesis
    proof (cases "e = FileNotFoundError")
      case False
      with om Inl "1.prems" have "fs' = fs"
        by (simp add: mkdir_other split: if_splits)
      then show ?thesis by (simp add: only_dirs_added_refl)
    next
      case True
      note om' = om [unfolded Inl True]
      show ?thesis
      proof (cases "\<not> parents \<or> parent p = p")
        case True
        with om' "1.prems" have "fs' = fs" by (simp add: mkdir_missing)
        then show ?thesis by (simp add: only_dirs_added_refl)
      next
        case False
        obtain x2 y2 where m2: "mkdir (parent p) True True fs = (x2, y2)"
          by (cases "mkdir (parent p) True True fs")
        have a: "only_dirs_added fs y2"
          using "1.IH"(1) [OF om' [symmetric] refl refl False] m2 y by simp
        show ?thesis
        proof (cases x2)
          case (Inl e2)
          with om' False m2 "1.prems" have "fs' = y2" by (simp add: mkdir_missing)
          with a show ?thesis by simp
        next
          case (Inr u2)
          with om' False m2 "1.prems" have "mkdir p False exist_ok y2 = (r, fs')"
            by (simp add: mkdir_missing)
          then have "only_dirs_added y2 fs'"
            using "1.IH"(2) [OF om' [symmetric] refl refl False _ Inr] m2 y by simp
          with a show ?thesis by (rule only_dirs_added_trans)
        qed
      qed
    qed
  qed
qed

lemma mkdir_resolves: "mkdir p par eo fs = (Inr u, fs') \<Longrightarrow> \<exists>t. resolve_dir fs' p = Inr t"
proof (induction p par eo fs arbitrary: fs' rule: mkdir.induct)
  case (1 p parents exist_ok fs)
  obtain x y where om: "os_mkdir p fs = (x, y)" by (cases "os_mkdir p fs")
  show ?case
  proof (cases x)
    case (Inr v)
    with om "1.prems" have "os_mkdir p fs = (Inr v, fs')" by (simp add: mkdir_ok)
    then show ?thesis using os_mkdir_resolves by blast
  next
    case (Inl e)
    with om have y: "y = fs" by (simp add: os_mkdir_Inl)
    show ?thesis
    proof (cases "e = FileNotFoundError")
      case False
      with om Inl "1.prems" have "fs' = fs" "is_dir p fs"
        by (simp_all add: mkdir_other split: if_splits)
      then show ?thesis by (auto simp: is_dir_def split: sum.splits)
    next
      case True
      note om' = om [unfolded Inl True]
      show ?thesis
      proof (cases "\<not> parents \<or> parent p = p")
        case True
        with om' "1.prems" show ?thesis by (simp add: mkdir_missing)
      next
        case False
        obtain x2 y2 where m2: "mkdir (parent p) True True fs = (x2, y2)"
          by (cases "mkdir (parent p) True True fs")
        show ?thesis
        proof (cases x2)
          case (Inl e2)
          with om' False m2 "1.prems" show ?thesis by (simp add: mkdir_missing)
        next
          case (Inr u2)
          with om' False m2 "1.prems" have "mkdir p False exist_ok y2 = (Inr u, fs')"
            by (simp add: mkdir_missing)
          then show ?thesis
            using "1.IH"(2) [OF om' [symmetric] refl refl False _ Inr] m2 y by simp
        qed
      qed
    qed
  qed
qed

lemma write_text_Inl: "write_text p data fs = (Inl e, fs') \<Longrightarrow> fs' = fs"
  by (auto simp: write_text_def split: if_splits sum.splits option.splits node.splits)

lemma resolve_child:
  assumes "resolve_dir fs p = Inr t" "nodes fs (t @ [c]) = Some Dir" "c \<noteq> dotdot"
  shows "resolve_dir fs (p\<lparr>tail := tail p @ [c]\<rparr>) = Inr (t @ [c])"
proof -
  have "walk fs t [c] = Inr (t @ [c])"
    using walk_single [OF assms(3), of fs t "t @ [c]"] assms(2) by blast
  with assms(1) show ?thesis by (simp add: resolve_dir_snoc del: walk.simps)
qed

lemma is_dir_child:
  assumes "resolve_dir fs p = Inr t" "c \<noteq> dotdot"
  shows "is_dir (p\<lparr>tail := tail p @ [c]\<rparr>) fs \<longleftrightarrow> nodes fs (t @ [c]) = Some Dir"
proof -
  have "(\<exists>u. walk fs t [c] = Inr u) \<longleftrightarrow> nodes fs (t @ [c]) = Some Dir"
    using walk_single [OF assms(2), of fs t] by blast
  with assms(1) show ?thesis
    by (auto simp: is_dir_def resolve_dir_snoc split: sum.splits simp del: walk.simps)
qed

lemma os_mkdir_child:
  assumes "resolve_dir fs p = Inr t" "c \<noteq> dotdot"
  shows "os_mkdir (p\<lparr>tail := tail p @ [c]\<rparr>) fs =
     (case nodes fs (t @ [c]) of
        None \<Rightarrow> (Inr (), fs\<lparr>nodes := (nodes fs)(t @ [c] \<mapsto> Dir)\<rparr>)
      | Some _ \<Rightarrow> (Inl FileExistsError, fs))"
  using assms by (simp add: os_mkdir_def parent_snoc lookup_def split: option.splits)

lemma mkdir_child:
  assumes "resolve_dir fs p = Inr t" "c \<noteq> dotdot"
  shows "mkdir (p\<lparr>tail := tail p @ [c]\<rparr>) False True fs =
     (case nodes fs (t @ [c]) of
        None \<Rightarrow> (Inr (), fs\<lparr>nodes := (nodes fs)(t @ [c] \<mapsto> Dir)\<rparr>)
      | Some Dir \<Rightarrow> (Inr (), fs)
      | Some (File x) \<Rightarrow> (Inl FileExistsError, fs))"
proof (cases "nodes fs (t @ [c])")
  case None
  then show ?thesis
    using os_mkdir_child [OF assms] by (simp add: mkdir_ok)
next
  case (Some n)
  then have "os_mkdir (p\<lparr>tail := tail p @ [c]\<rparr>) fs = (Inl FileExistsError, fs)"
    using os_mkdir_child [OF assms] by simp
  then show ?thesis
    using Some is_dir_child [OF assms]
    by (cases n) (simp_all add: mkdir_other)
qed

lemma write_child:
  assumes "resolve_dir fs p = Inr t" "c \<noteq> dotdot"
  shows "write_text (p\<lparr>tail := tail p @ [c]\<rparr>) data fs =
     (if nodes fs (t @ [c]) = Some Dir then (Inl IsADirectoryError, fs)
      else (Inr (), fs\<lparr>nodes := (nodes fs)(t @ [c] \<mapsto> File data)\<rparr>))"
  using assms
  by (auto simp: write_text_def parent_snoc lookup_def split: option.splits node.splits)

lemma dirs_kept_file:
  "nodes fs q \<noteq> Some Dir \<Longrightarrow> dirs_kept fs (fs\<lparr>nodes := (nodes fs)(q \<mapsto> File x)\<rparr>)"
  by (auto simp: dirs_kept_def)

lemma seq_Inr:
  "seq m k fs = (Inr x, fs') \<longleftrightarrow> (\<exists>fs1. m fs = (Inr (), fs1) \<and> k fs1 = (Inr x, fs'))"
  by (auto simp: seq_def split: prod.splits sum.splits)

lemma seq_step: "m fs = (Inr (), fs1) \<Longrightarrow> seq m k fs = k fs1"
  by (simp add: seq_def)

lemma write_child_Inr:
  assumes "resolve_dir fs p = Inr t" "c \<noteq> dotdot"
    and "write_text (p\<lparr>tail := tail p @ [c]\<rparr>) data fs = (Inr u, fs')"
  shows "nodes fs (t @ [c]) \<noteq> Some Dir" and "fs' = fs\<lparr>nodes := (nodes fs)(t @ [c] \<mapsto> File data)\<rparr>"
  using assms(3) unfolding write_child [OF assms(1,2)] by (auto split: if_splits)

lemma write_child_kept:
  assumes "resolve_dir fs p = Inr t" "c \<noteq> dotdot"
    and "write_text (p\<lparr>tail := tail p @ [c]\<rparr>) data fs = (Inr u, fs')"
  shows "dirs_kept fs fs'"
  using write_child_Inr [OF assms] dirs_kept_file by simp

text \<open>
  With the target directory and its two subdirectories present, the statements after the
  creation of the target directory succeed exactly when none of the five locations is a
  directory, and then they leave the five texts there.
\<close>

lemma fill_tree_existing:
  assumes r: "resolve_dir fs sd = Inr t"
    and d1: "nodes fs (t @ [codes ''resources'']) = Some Dir"
    and d2: "nodes fs (t @ [codes ''scripts'']) = Some Dir"
    and nd: "\<forall>q\<in>file_locations t. nodes fs q \<noteq> Some Dir"
  shows "fill_tree sd c1 c2 c3 c4 fs = (Inr sd, with_files fs t c1 c2 c3 c4)"
proof -
  let ?res = "sd\<lparr>tail := tail sd @ [codes ''resources'']\<rparr>"
  let ?scr = "sd\<lparr>tail := tail sd @ [codes ''scripts'']\<rparr>"
  define f1 where "f1 = fs\<lparr>nodes := (nodes fs)(t @ [codes ''SKILL.md''] \<mapsto> File c1)\<rparr>"
  define f2 where "f2 = f1\<lparr>nodes := (nodes f1)(t @ [codes ''REFERENCE.md''] \<mapsto> File c2)\<rparr>"
  define f3 where
    "f3 = f2\<lparr>nodes := (nodes f2)((t @ [codes ''resources'']) @ [codes ''README.md''] \<mapsto> File c3)\<rparr>"
  define f4 where
    "f4 = f3\<lparr>nodes := (nodes f3)((t @ [codes ''scripts'']) @ [codes ''README.md''] \<mapsto> File c4)\<rparr>"
  define f5 where
    "f5 = f4\<lparr>nodes := (nodes f4)(t @ [codes ''.gitignore''] \<mapsto> File gitignore_content)\<rparr>"
  from nd have n1: "nodes fs (t @ [codes ''SKILL.md'']) \<noteq> Some Dir"
    and n2: "nodes fs (t @ [codes ''REFERENCE.md'']) \<noteq> Some Dir"
    and n3: "nodes fs (t @ [codes ''resources'', codes ''README.md'']) \<noteq> Some Dir"
    and n4: "nodes fs (t @ [codes ''scripts'', codes ''README.md'']) \<noteq> Some Dir"
    and n5: "nodes fs (t @ [codes ''.gitignore'']) \<noteq> Some Dir"
    by (simp_all add: file_locations_def)
  have m1: "mkdir ?res False True fs = (Inr (), fs)"
    using mkdir_child [OF r names_not_dotdot(1)] d1 by simp
  have m2: "mkdir ?scr False True fs = (Inr (), fs)"
    using mkdir_child [OF r names_not_dotdot(2)] d2 by simp
  have w1: "write_text (sd\<lparr>tail := tail sd @ [codes ''SKILL.md'']\<rparr>) c1 fs = (Inr (), f1)"
    using write_child [OF r names_not_dotdot(3)] n1 by (simp add: f1_def)
  have r1: "resolve_dir f1 sd = Inr t"
    using resolve_dir_kept [OF dirs_kept_file [OF n1] r] by (simp add: f1_def)
  have n2': "nodes f1 (t @ [codes ''REFERENCE.md'']) \<noteq> Some Dir"
    using n2 names_distinct by (simp add: f1_def)
  have w2: "write_text (sd\<lparr>tail := tail sd @ [codes ''REFERENCE.md'']\<rparr>) c2 f1 = (Inr (), f2)"
    using write_child [OF r1 names_not_dotdot(4)] n2' by (simp add: f2_def)
  have r2: "resolve_dir f2 sd = Inr t"
    using resolve_dir_kept [OF dirs_kept_file [OF n2'] r1] by (simp add: f2_def)
  have d1': "nodes f2 (t @ [codes ''resources'']) = Some Dir"
    using d1 names_distinct by (simp add: f1_def f2_def)
  have rr2: "resolve_dir f2 ?res = Inr (t @ [codes ''resources''])"
    by (rule resolve_child [OF r2 d1' names_not_dotdot(1)])
  have n3': "nodes f2 ((t @ [codes ''resources'']) @ [codes ''README.md'']) \<noteq> Some Dir"
    using n3 by (simp add: f1_def f2_def)
  have w3: "write_text (sd\<lparr>tail := tail sd @ [codes ''resources'', codes ''README.md'']\<rparr>) c3 f2
      = (Inr (), f3)"
    using write_child [OF rr2 names_not_dotdot(5)] n3' by (simp add: f3_def)
  have r3: "resolve_dir f3 sd = Inr t"
    using resolve_dir_kept [OF dirs_kept_file [OF n3'] r2] by (simp add: f3_def)
  have d2': "nodes f3 (t @ [codes ''scripts'']) = Some Dir"
    using d2 names_distinct by (simp add: f1_def f2_def f3_def)
  have rs3: "resolve_dir f3 ?scr = Inr (t @ [codes ''scripts''])"
    by (rule resolve_child [OF r3 d2' names_not_dotdot(2)])
  have n4': "nodes f3 ((t @ [codes ''scripts'']) @ [codes ''README.md'']) \<noteq> Some Dir"
    using n4 names_distinct by (simp add: f1_def f2_def f3_def)
  have w4: "write_text (sd\<lparr>tail := tail sd @ [codes ''scripts'', codes ''README.md'']\<rparr>) c4 f3
      = (Inr (), f4)"
    using write_child [OF rs3 names_not_dotdot(5)] n4' by (simp add: f4_def)
  have r4: "resolve_dir f4 sd = Inr t"
    using resolve_dir_kept [OF dirs_kept_file [OF n4'] r3] by (simp add: f4_def)
  have n5': "nodes f4 (t @ [codes ''.gitignore'']) \<noteq> Some Dir"
    using n5 names_distinct by (simp add: f1_def f2_def f3_def f4_def)
  have w5: "write_text (sd\<lparr>tail := tail sd @ [codes ''.gitignore'']\<rparr>) gitignore_content f4 = (Inr (), f5)"
    using write_child [OF r4 names_not_dotdot(6)] n5' by (simp add: f5_def)
  have "fill_tree sd c1 c2 c3 c4 fs = (Inr sd, f5)"
    by (simp add: fill_tree_def join_names seq_def m1 m2 w1 w2 w3 w4 w5 return_def)
  moreover have "f5 = with_files fs t c1 c2 c3 c4"
    by (simp add: with_files_def f1_def f2_def f3_def f4_def f5_def)
  ultimately show ?thesis by simp
qed

lemma fill_tree_no_dirs:
  assumes r: "resolve_dir fs sd = Inr t"
    and d1: "nodes fs (t @ [codes ''resources'']) = Some Dir"
    and d2: "nodes fs (t @ [codes ''scripts'']) = Some Dir"
    and ok: "fill_tree sd c1 c2 c3 c4 fs = (Inr x, fs')"
  shows "\<forall>q\<in>file_locations t. nodes fs q \<noteq> Some Dir"
proof -
  let ?res = "sd\<lparr>tail := tail sd @ [codes ''resources'']\<rparr>"
  let ?scr = "sd\<lparr>tail := tail sd @ [codes ''scripts'']\<rparr>"
  have m1: "mkdir ?res False True fs = (Inr (), fs)"
    using mkdir_child [OF r names_not_dotdot(1)] d1 by simp
  have m2: "mkdir ?scr False True fs = (Inr (), fs)"
    using mkdir_child [OF r names_not_dotdot(2)] d2 by simp
  from ok obtain f1 f2 f3 f4 where
    w1: "write_text (sd\<lparr>tail := tail sd @ [codes ''SKILL.md'']\<rparr>) c1 fs = (Inr (), f1)" and
    w2: "write_text (sd\<lparr>tail := tail sd @ [codes ''REFERENCE.md'']\<rparr>) c2 f1 = (Inr (), f2)" and
    w3': "write_text (sd\<lparr>tail := tail sd @ [codes ''resources'', codes ''README.md'']\<rparr>) c3 f2
      = (Inr (), f3)" and
    w4': "write_text (sd\<lparr>tail := tail sd @ [codes ''scripts'', codes ''README.md'']\<rparr>) c4 f3
      = (Inr (), f4)" and
    w5: "write_text (sd\<lparr>tail := tail sd @ [codes ''.gitignore'']\<rparr>) gitignore_content f4 = (Inr (), fs')"
    by (auto simp: fill_tree_def join_names seq_Inr m1 m2 return_def)
  from w3' have w3: "write_text (?res\<lparr>tail := tail ?res @ [codes ''README.md'']\<rparr>) c3 f2 = (Inr (), f3)"
    by simp
  from w4' have w4: "write_text (?scr\<lparr>tail := tail ?scr @ [codes ''README.md'']\<rparr>) c4 f3 = (Inr (), f4)"
    by simp
  note a1 = write_child_Inr [OF r names_not_dotdot(3) w1]
  have r1: "resolve_dir f1 sd = Inr t"
    using resolve_dir_kept [OF write_child_kept [OF r names_not_dotdot(3) w1] r] .
  note a2 = write_child_Inr [OF r1 names_not_dotdot(4) w2]
  have r2: "resolve_dir f2 sd = Inr t"
    using resolve_dir_kept [OF write_child_kept [OF r1 names_not_dotdot(4) w2] r1] .
  have d1': "nodes f2 (t @ [codes ''resources'']) = Some Dir"
    using d1 names_distinct by (simp add: a1(2) a2(2))
  have rr2: "resolve_dir f2 ?res = Inr (t @ [codes ''resources''])"
    by (rule resolve_child [OF r2 d1' names_not_dotdot(1)])
  note a3 = write_child_Inr [OF rr2 names_not_dotdot(5) w3]
  have r3: "resolve_dir f3 sd = Inr t"
    using resolve_dir_kept [OF write_child_kept [OF rr2 names_not_dotdot(5) w3] r2] .
  have d2': "nodes f3 (t @ [codes ''scripts'']) = Some Dir"
    using d2 names_distinct by (simp add: a1(2) a2(2) a3(2))
  have rs3: "resolve_dir f3 ?scr = Inr (t @ [codes ''scripts''])"
    by (rule resolve_child [OF r3 d2' names_not_dotdot(2)])
  note a4 = write_child_Inr [OF rs3 names_not_dotdot(5) w4]
  have r4: "resolve_dir f4 sd = Inr t"
    using resolve_dir_kept [OF write_child_kept [OF rs3 names_not_dotdot(5) w4] r3] .
  note a5 = write_child_Inr [OF r4 names_not_dotdot(6) w5]
  have "nodes fs (t @ [codes ''SKILL.md'']) \<noteq> Some Dir" using a1(1) .
  moreover have "nodes fs (t @ [codes ''REFERENCE.md'']) \<noteq> Some Dir"
    using a2(1) names_distinct by (simp add: a1(2))
  moreover have "nodes fs (t @ [codes ''resources'', codes ''README.md'']) \<noteq> Some Dir"
    using a3(1) by (simp add: a1(2) a2(2))
  moreover have "nodes fs (t @ [codes ''scripts'', codes ''README.md'']) \<noteq> Some Dir"
    using a4(1) names_distinct by (simp add: a1(2) a2(2) a3(2))
  moreover have "nodes fs (t @ [codes ''.gitignore'']) \<noteq> Some Dir"
    using a5(1) names_distinct by (simp add: a1(2) a2(2) a3(2) a4(2))
  ultimately show ?thesis by (simp add: file_locations_def)
qed

lemma walk_no_dotdot: "dotdot \<notin> set xs \<Longrightarrow> walk fs cur xs = Inr t \<Longrightarrow> t = cur @ xs"
proof (induction xs arbitrary: cur)
  case Nil
  then show ?case by simp
next
  case (Cons c cs)
  from Cons.prems have "walk fs (cur @ [c]) cs = Inr t"
    by (auto split: option.splits node.splits)
  with Cons.IH [of "cur @ [c]"] Cons.prems(1) show ?case by simp
qed

lemma resolve_no_dotdot:
  assumes "dotdot \<notin> set (tail p)" "resolve_dir fs p = Inr t"
  shows "t = base_dir fs p @ tail p"
proof (cases "root p \<noteq> []")
  case True
  with assms(2) have "walk fs [] (tail p) = Inr t" by (simp add: resolve_dir_def)
  from walk_no_dotdot [OF assms(1) this] True show ?thesis by (simp add: base_dir_def)
next
  case False
  with assms(2) have "walk fs (cwd fs) (tail p) = Inr t"
    by (simp add: resolve_dir_def split: option.splits node.splits)
  from walk_no_dotdot [OF assms(1) this] False show ?thesis by (simp add: base_dir_def)
qed





lemma mkdir_child_Inr:
  assumes "resolve_dir fs p = Inr t" "c \<noteq> dotdot"
    and "mkdir (p\<lparr>tail := tail p @ [c]\<rparr>) False True fs = (Inr u, fs')"
  shows "nodes fs' (t @ [c]) = Some Dir"
    and "\<forall>q. nodes fs' q \<noteq> nodes fs q \<longrightarrow> q = t @ [c]"
proof -
  note eq = assms(3) [unfolded mkdir_child [OF assms(1,2)]]
  show "nodes fs' (t @ [c]) = Some Dir"
  proof (cases "nodes fs (t @ [c])")
    case None
    with eq show ?thesis by auto
  next
    case (Some a)
    with eq show ?thesis by (cases a) auto
  qed
  show "\<forall>q. nodes fs' q \<noteq> nodes fs q \<longrightarrow> q = t @ [c]"
  proof (cases "nodes fs (t @ [c])")
    case None
    with eq have "fs' = fs\<lparr>nodes := (nodes fs)(t @ [c] \<mapsto> Dir)\<rparr>" by simp
    then show ?thesis by simp
  next
    case (Some a)
    with eq have "fs' = fs" by (cases a) auto
    then show ?thesis by simp
  qed
qed

lemma fill_tree_after_dirs:
  "fill_tree sd c1 c2 c3 c4 =
     seq (mkdir (sd\<lparr>tail := tail sd @ [codes ''resources'']\<rparr>) False True)
       (seq (mkdir (sd\<lparr>tail := tail sd @ [codes ''scripts'']\<rparr>) False True)
          (after_dirs sd c1 c2 c3 c4))"
  by (simp only: fill_tree_def after_dirs_def join_resources join_scripts)

lemma fill_tree_mkdirs:
  assumes r: "resolve_dir fs1 sd = Inr t"
    and ok: "fill_tree sd c1 c2 c3 c4 fs1 = (Inr x, fs')"
  shows "\<exists>fs3. only_dirs_added fs1 fs3 \<and>
           (\<forall>q. nodes fs3 q \<noteq> nodes fs1 q \<longrightarrow> q = t @ [codes ''resources''] \<or> q = t @ [codes ''scripts'']) \<and>
           nodes fs3 (t @ [codes ''resources'']) = Some Dir \<and>
           nodes fs3 (t @ [codes ''scripts'']) = Some Dir \<and>
           resolve_dir fs3 sd = Inr t \<and>
           fill_tree sd c1 c2 c3 c4 fs3 = (Inr x, fs')"
proof -
  let ?res = "sd\<lparr>tail := tail sd @ [codes ''resources'']\<rparr>"
  let ?scr = "sd\<lparr>tail := tail sd @ [codes ''scripts'']\<rparr>"
  from ok obtain g1 where m1: "mkdir ?res False True fs1 = (Inr (), g1)"
    and ok1: "seq (mkdir ?scr False True) (after_dirs sd c1 c2 c3 c4) g1 = (Inr x, fs')"
    unfolding fill_tree_after_dirs by (subst (asm) seq_Inr) blast
  from ok1 obtain g2 where m2: "mkdir ?scr False True g1 = (Inr (), g2)"
    and rest: "after_dirs sd c1 c2 c3 c4 g2 = (Inr x, fs')"
    by (subst (asm) seq_Inr) blast
  note g1 = mkdir_child_Inr [OF r names_not_dotdot(1) m1]
  have k1: "only_dirs_added fs1 g1" using mkdir_only_dirs_added [OF m1] .
  have r1: "resolve_dir g1 sd = Inr t"
    using resolve_dir_kept [OF only_dirs_added_kept [OF k1] r] .
  note g2 = mkdir_child_Inr [OF r1 names_not_dotdot(2) m2]
  have k2: "only_dirs_added g1 g2" using mkdir_only_dirs_added [OF m2] .
  have r2: "resolve_dir g2 sd = Inr t"
    using resolve_dir_kept [OF only_dirs_added_kept [OF k2] r1] .
  have d1: "nodes g2 (t @ [codes ''resources'']) = Some Dir"
    using g1(1) only_dirs_added_kept [OF k2] by (simp add: dirs_kept_def)
  have n1: "mkdir ?res False True g2 = (Inr (), g2)"
    using mkdir_child [OF r2 names_not_dotdot(1)] d1 by simp
  have n2: "mkdir ?scr False True g2 = (Inr (), g2)"
    using mkdir_child [OF r2 names_not_dotdot(2)] g2(1) by simp
  have "fill_tree sd c1 c2 c3 c4 g2 = after_dirs sd c1 c2 c3 c4 g2"
    unfolding fill_tree_after_dirs by (simp add: seq_def n1 n2)
  with rest have f: "fill_tree sd c1 c2 c3 c4 g2 = (Inr x, fs')" by simp
  have k: "only_dirs_added fs1 g2" using k1 k2 by (rule only_dirs_added_trans)
  have ch: "\<forall>q. nodes g2 q \<noteq> nodes fs1 q \<longrightarrow>
      q = t @ [codes ''resources''] \<or> q = t @ [codes ''scripts'']"
  proof (intro allI impI)
    fix q
    assume a: "nodes g2 q \<noteq> nodes fs1 q"
    show "q = t @ [codes ''resources''] \<or> q = t @ [codes ''scripts'']"
    proof (cases "nodes g1 q = nodes fs1 q")
      case True
      with a have "nodes g2 q \<noteq> nodes g1 q" by simp
      with g2(2) show ?thesis by simp
    next
      case False
      with g1(2) show ?thesis by simp
    qed
  qed
  show ?thesis
    by (rule exI [of _ g2]) (intro conjI k ch d1 g2(1) r2 f)
qed

lemma with_files_other:
  "q \<notin> file_locations t \<Longrightarrow> nodes (with_files fs t c1 c2 c3 c4) q = nodes fs q"
  by (simp add: with_files_def file_locations_def)

lemma with_files_cwd: "cwd (with_files fs t c1 c2 c3 c4) = cwd fs"
  by (simp add: with_files_def)

lemma with_files_texts:
  "nodes (with_files fs t c1 c2 c3 c4) (t @ [codes ''SKILL.md'']) = Some (File c1)"
  "nodes (with_files fs t c1 c2 c3 c4) (t @ [codes ''REFERENCE.md'']) = Some (File c2)"
  "nodes (with_files fs t c1 c2 c3 c4) (t @ [codes ''resources'', codes ''README.md'']) = Some (File c3)"
  "nodes (with_files fs t c1 c2 c3 c4) (t @ [codes ''scripts'', codes ''README.md'']) = Some (File c4)"
  "nodes (with_files fs t c1 c2 c3 c4) (t @ [codes ''.gitignore'']) = Some (File gitignore_content)"
  using names_distinct by (simp_all add: with_files_def)

lemma with_files_kept:
  assumes "\<forall>q\<in>file_locations t. nodes fs q \<noteq> Some Dir"
  shows "dirs_kept fs (with_files fs t c1 c2 c3 c4)"
  unfolding dirs_kept_def
proof (intro conjI allI impI)
  show "cwd (with_files fs t c1 c2 c3 c4) = cwd fs" by (rule with_files_cwd)
  fix q
  assume d: "nodes fs q = Some Dir"
  with assms have "q \<notin> file_locations t" by auto
  with d show "nodes (with_files fs t c1 c2 c3 c4) q = Some Dir" by (simp add: with_files_other)
qed

lemma dirs_not_files:
  "t @ [codes ''resources''] \<notin> file_locations t" "t @ [codes ''scripts''] \<notin> file_locations t"
  using names_distinct by (simp_all add: file_locations_def)

lemma with_files_again:
  "with_files (with_files fs t a1 a2 a3 a4) t c1 c2 c3 c4 = with_files fs t c1 c2 c3 c4"
  by (simp add: with_files_def)

lemma with_files_no_dirs:
  "\<forall>q\<in>file_locations t. nodes (with_files fs t c1 c2 c3 c4) q \<noteq> Some Dir"
  using with_files_texts [of fs t c1 c2 c3 c4] by (simp add: file_locations_def)

text \<open>How a call of \<open>create_skill\<close> that passes the validation goes on.\<close>

lemma create_skill_valid:
  assumes "sanitize_name n = Inr safe" "length d \<le> 1024" "strip d \<noteq> []"
  shows "create_skill n d p i e deps ip t1 t2 fs =
     seq (mkdir (skill_dir_of ip safe) True True)
       (fill_tree (skill_dir_of ip safe) (skill_content safe d n p i e t1 deps)
          (reference_content n t2) (resources_readme n) (scripts_readme n)) fs"
  using assms by (simp add: create_skill_def fill_tree_def Let_def)

lemma create_skill_Inr:
  assumes "create_skill n d p i e deps ip t1 t2 fs = (Inr sd, fs')"
  shows "sanitize_name n = Inr (clean_name n) \<and> length d \<le> 1024 \<and> strip d \<noteq> []"
proof -
  have "\<not> (\<exists>m. sanitize_name n = Inl (ValueError m))"
    using assms by (auto simp: create_skill_def raise_def)
  then have "sanitize_name n = Inr (clean_name n)"
    using sanitize_name_cases [of n] by blast
  moreover from this have "length d \<le> 1024 \<and> strip d \<noteq> []"
    using assms by (auto simp: create_skill_def raise_def split: if_splits)
  ultimately show ?thesis by simp
qed

text \<open>
  A successful call: the target directory is made, the two subdirectories are made or
  found, and the five texts are written.
\<close>

lemma create_skill_run:
  assumes "create_skill n d p i e deps ip t1 t2 fs = (Inr sd, fs')"
  shows "\<exists>fs1 fs3 t.
     sd = skill_dir_of ip (clean_name n) \<and>
     mkdir sd True True fs = (Inr (), fs1) \<and>
     resolve_dir fs1 sd = Inr t \<and>
     only_dirs_added fs1 fs3 \<and>
     (\<forall>q. nodes fs3 q \<noteq> nodes fs1 q \<longrightarrow>
          q = t @ [codes ''resources''] \<or> q = t @ [codes ''scripts'']) \<and>
     nodes fs3 (t @ [codes ''resources'']) = Some Dir \<and>
     nodes fs3 (t @ [codes ''scripts'']) = Some Dir \<and>
     resolve_dir fs3 sd = Inr t \<and>
     (\<forall>q\<in>file_locations t. nodes fs3 q \<noteq> Some Dir) \<and>
     fs' = with_files fs3 t (skill_content (clean_name n) d n p i e t1 deps)
             (reference_content n t2) (resources_readme n) (scripts_readme n)"
proof -
  let ?sd = "skill_dir_of ip (clean_name n)"
  let ?c1 = "skill_content (clean_name n) d n p i e t1 deps"
  let ?c2 = "reference_content n t2" and ?c3 = "resources_readme n" and ?c4 = "scripts_readme n"
  from create_skill_Inr [OF assms] have v: "sanitize_name n = Inr (clean_name n)"
    "length d \<le> 1024" "strip d \<noteq> []" by simp_all
  from assms obtain fs1 where m: "mkdir ?sd True True fs = (Inr (), fs1)"
    and f: "fill_tree ?sd ?c1 ?c2 ?c3 ?c4 fs1 = (Inr sd, fs')"
    unfolding create_skill_valid [OF v] seq_Inr by blast
  from mkdir_resolves [OF m] obtain t where r1: "resolve_dir fs1 ?sd = Inr t" by blast
  from fill_tree_mkdirs [OF r1 f] obtain fs3 where
    k: "only_dirs_added fs1 fs3" and
    ch: "\<forall>q. nodes fs3 q \<noteq> nodes fs1 q \<longrightarrow>
          q = t @ [codes ''resources''] \<or> q = t @ [codes ''scripts'']" and
    d1: "nodes fs3 (t @ [codes ''resources'']) = Some Dir" and
    d2: "nodes fs3 (t @ [codes ''scripts'']) = Some Dir" and
    r3: "resolve_dir fs3 ?sd = Inr t" and
    f3: "fill_tree ?sd ?c1 ?c2 ?c3 ?c4 fs3 = (Inr sd, fs')"
    by blast
  have nd: "\<forall>q\<in>file_locations t. nodes fs3 q \<noteq> Some Dir"
    by (rule fill_tree_no_dirs [OF r3 d1 d2 f3])
  from fill_tree_existing [OF r3 d1 d2 nd, of ?c1 ?c2 ?c3 ?c4] f3
  have "sd = ?sd" and "fs' = with_files fs3 t ?c1 ?c2 ?c3 ?c4" by simp_all
  from this(1) have e: "?sd = sd" by simp
  show ?thesis
    apply (rule exI [of _ fs1], rule exI [of _ fs3], rule exI [of _ t])
    unfolding e [symmetric]
    using \<open>fs' = with_files fs3 t ?c1 ?c2 ?c3 ?c4\<close>
    by (intro conjI refl m r1 k ch d1 d2 r3 nd)
qed

text \<open>
  The statements after the creation of the target directory succeed when the two
  subdirectories are missing or present and none of the five locations is a directory.
\<close>

lemma fill_tree_fresh:
  assumes r: "resolve_dir fs sd = Inr t"
    and d1: "nodes fs (t @ [codes ''resources'']) = None \<or> nodes fs (t @ [codes ''resources'']) = Some Dir"
    and d2: "nodes fs (t @ [codes ''scripts'']) = None \<or> nodes fs (t @ [codes ''scripts'']) = Some Dir"
    and nd: "\<forall>q\<in>file_locations t. nodes fs q \<noteq> Some Dir"
  shows "fill_tree sd c1 c2 c3 c4 fs = (Inr sd, with_files (with_dirs fs t) t c1 c2 c3 c4)"
proof -
  let ?res = "sd\<lparr>tail := tail sd @ [codes ''resources'']\<rparr>"
  let ?scr = "sd\<lparr>tail := tail sd @ [codes ''scripts'']\<rparr>"
  define g1 where "g1 = fs\<lparr>nodes := (nodes fs)(t @ [codes ''resources''] \<mapsto> Dir)\<rparr>"
  define g2 where "g2 = g1\<lparr>nodes := (nodes g1)(t @ [codes ''scripts''] \<mapsto> Dir)\<rparr>"
  have m1: "mkdir ?res False True fs = (Inr (), g1)"
  proof (cases "nodes fs (t @ [codes ''resources''])")
    case None
    then show ?thesis using mkdir_child [OF r names_not_dotdot(1)] by (simp add: g1_def)
  next
    case (Some a)
    with d1 have a: "nodes fs (t @ [codes ''resources'']) = Some Dir" by simp
    then have "(nodes fs)(t @ [codes ''resources''] \<mapsto> Dir) = nodes fs" by (rule fun_upd_idem)
    then have "g1 = fs" by (simp add: g1_def)
    with a show ?thesis using mkdir_child [OF r names_not_dotdot(1)] by simp
  qed
  have k1: "dirs_kept fs g1" by (simp add: dirs_kept_def g1_def)
  have r1: "resolve_dir g1 sd = Inr t" using resolve_dir_kept [OF k1 r] .
  have d2': "nodes g1 (t @ [codes ''scripts'']) = None \<or> nodes g1 (t @ [codes ''scripts'']) = Some Dir"
    using d2 names_distinct by (simp add: g1_def)
  have m2: "mkdir ?scr False True g1 = (Inr (), g2)"
  proof (cases "nodes g1 (t @ [codes ''scripts''])")
    case None
    then show ?thesis using mkdir_child [OF r1 names_not_dotdot(2)] by (simp add: g2_def)
  next
    case (Some a)
    with d2' have a: "nodes g1 (t @ [codes ''scripts'']) = Some Dir" by simp
    then have "(nodes g1)(t @ [codes ''scripts''] \<mapsto> Dir) = nodes g1" by (rule fun_upd_idem)
    then have "g2 = g1" by (simp add: g2_def)
    with a show ?thesis using mkdir_child [OF r1 names_not_dotdot(2)] by simp
  qed
  have k2: "dirs_kept g1 g2" by (simp add: dirs_kept_def g2_def)
  have r2: "resolve_dir g2 sd = Inr t" using resolve_dir_kept [OF k2 r1] .
  have e1: "nodes g2 (t @ [codes ''resources'']) = Some Dir"
    using names_distinct by (simp add: g1_def g2_def)
  have e2: "nodes g2 (t @ [codes ''scripts'']) = Some Dir" by (simp add: g2_def)
  have nd2: "\<forall>q\<in>file_locations t. nodes g2 q \<noteq> Some Dir"
  proof
    fix q
    assume q: "q \<in> file_locations t"
    then have "q \<noteq> t @ [codes ''resources'']" "q \<noteq> t @ [codes ''scripts'']"
      using dirs_not_files [of t] by auto
    then have "nodes g2 q = nodes fs q" by (simp add: g1_def g2_def)
    with nd q show "nodes g2 q \<noteq> Some Dir" by simp
  qed
  have n1: "mkdir ?res False True g2 = (Inr (), g2)"
    using mkdir_child [OF r2 names_not_dotdot(1)] e1 by simp
  have n2: "mkdir ?scr False True g2 = (Inr (), g2)"
    using mkdir_child [OF r2 names_not_dotdot(2)] e2 by simp
  have "fill_tree sd c1 c2 c3 c4 fs = after_dirs sd c1 c2 c3 c4 g2"
    unfolding fill_tree_after_dirs by (simp add: seq_def m1 m2)
  also have "\<dots> = fill_tree sd c1 c2 c3 c4 g2"
    unfolding fill_tree_after_dirs by (simp add: seq_def n1 n2)
  also have "\<dots> = (Inr sd, with_files g2 t c1 c2 c3 c4)"
    by (rule fill_tree_existing [OF r2 e1 e2 nd2])
  also have "g2 = with_dirs fs t" by (simp add: g1_def g2_def with_dirs_def)
  finally show ?thesis .
qed

lemma os_mkdir_new:
  assumes "resolve_dir fs p = Inr t" "c \<noteq> dotdot" "nodes fs (t @ [c]) = None"
  shows "mkdir (p\<lparr>tail := tail p @ [c]\<rparr>) True True fs
           = (Inr (), fs\<lparr>nodes := (nodes fs)(t @ [c] \<mapsto> Dir)\<rparr>)"
  using os_mkdir_child [OF assms(1,2)] assms(3) by (simp add: mkdir_ok)

section \<open>Properties of the validation\<close>

lemma strip_Nil: "strip d = [] \<longleftrightarrow> (\<forall>c\<in>set d. isspace_cp c)"
  by (simp add: strip_def strip_by_Nil)

lemma create_skill_bad_name:
  "sanitize_name n = Inl x \<Longrightarrow> create_skill n d p i e deps ip t1 t2 fs = (Inl x, fs)"
  by (simp add: create_skill_def raise_def)

lemma create_skill_long:
  "sanitize_name n = Inr safe \<Longrightarrow> length d > 1024 \<Longrightarrow>
   create_skill n d p i e deps ip t1 t2 fs = (Inl (ValueError long_message), fs)"
  by (simp add: create_skill_def raise_def)

lemma create_skill_blank:
  "sanitize_name n = Inr safe \<Longrightarrow> length d \<le> 1024 \<Longrightarrow> strip d = [] \<Longrightarrow>
   create_skill n d p i e deps ip t1 t2 fs = (Inl (ValueError empty_message), fs)"
  by (simp add: create_skill_def raise_def)

lemma messages_differ: "long_message \<noteq> empty_message"
  by (simp add: long_message_def empty_message_def codes_def)

section \<open>A run on the example file system\<close>

lemma sanitize_demo: "sanitize_name (codes ''demo'') = Inr (codes ''demo'')"
  by code_simp

lemma skill_dir_demo: "skill_dir_of None (codes ''demo'') = \<lparr>root = [], tail = [codes ''demo'']\<rparr>"
  by (simp add: skill_dir_of_def Path_def splitroot_def codes_def slash_def dot_def)

lemma example_run:
  assumes "length d \<le> 1024" "strip d \<noteq> []"
  shows "create_skill (codes ''demo'') d p i e deps None t1 t2 example_fs =
     (Inr \<lparr>root = [], tail = [codes ''demo'']\<rparr>,
      with_files
        (with_dirs (example_fs\<lparr>nodes := (nodes example_fs)([codes ''home'', codes ''demo''] \<mapsto> Dir)\<rparr>)
           [codes ''home'', codes ''demo''])
        [codes ''home'', codes ''demo'']
        (skill_content (codes ''demo'') d (codes ''demo'') p i e t1 deps)
        (reference_content (codes ''demo'') t2) (resources_readme (codes ''demo''))
        (scripts_readme (codes ''demo'')))"
proof -
  let ?top = "\<lparr>root = [], tail = []\<rparr> :: path"
  let ?sd = "\<lparr>root = [], tail = [codes ''demo'']\<rparr> :: path"
  let ?t = "[codes ''home'', codes ''demo'']"
  let ?fs1 = "example_fs\<lparr>nodes := (nodes example_fs)(?t \<mapsto> Dir)\<rparr>"
  have sd: "?sd = ?top\<lparr>tail := tail ?top @ [codes ''demo'']\<rparr>" by simp
  have nd: "codes ''demo'' \<noteq> dotdot" by (simp add: codes_def dotdot_def)
  have r0: "resolve_dir example_fs ?top = Inr [codes ''home'']"
    by (simp add: resolve_dir_def example_fs_def lookup_def)
  have free: "nodes example_fs ([codes ''home''] @ [codes ''demo'']) = None"
    by (simp add: example_fs_def codes_def)
  have m: "mkdir ?sd True True example_fs = (Inr (), ?fs1)"
    unfolding sd using os_mkdir_new [OF r0 nd free] by simp
  have "resolve_dir ?fs1 ?top = Inr [codes ''home'']"
    by (simp add: resolve_dir_def example_fs_def lookup_def codes_def)
  from resolve_child [OF this _ nd] have r1: "resolve_dir ?fs1 ?sd = Inr ?t" by simp
  have d1: "nodes ?fs1 (?t @ [codes ''resources'']) = None \<or>
      nodes ?fs1 (?t @ [codes ''resources'']) = Some Dir"
    by (simp add: example_fs_def codes_def)
  have d2: "nodes ?fs1 (?t @ [codes ''scripts'']) = None \<or>
      nodes ?fs1 (?t @ [codes ''scripts'']) = Some Dir"
    by (simp add: example_fs_def codes_def)
  have nf: "\<forall>q\<in>file_locations ?t. nodes ?fs1 q \<noteq> Some Dir"
    by (simp add: file_locations_def example_fs_def codes_def)
  show ?thesis
    unfolding create_skill_valid [OF sanitize_demo assms] skill_dir_demo
    by (simp only: seq_def m prod.case sum.case fill_tree_fresh [OF r1 d1 d2 nf])
qed

section \<open>A run with an install path through \<open>'..'\<close>\<close>




section \<open>Properties of the text of SKILL.md\<close>



lemma dependencies_line_empty: "dependencies_line deps = [] \<longleftrightarrow> deps = []"
  by (simp add: dependencies_line_def codes_def)

section \<open>The state after a successful call\<close>

lemma create_skill_state:
  assumes "create_skill n d p i e deps ip t1 t2 fs = (Inr sd, fs')"
  shows "\<exists>fs1 t.
     mkdir sd True True fs = (Inr (), fs1) \<and> resolve_dir fs1 sd = Inr t \<and>
     resolve_dir fs' sd = Inr t \<and> cwd fs' = cwd fs \<and>
     nodes fs' (t @ [codes ''resources'']) = Some Dir \<and>
     nodes fs' (t @ [codes ''scripts'']) = Some Dir \<and>
     (\<forall>q\<in>file_locations t. nodes fs' q \<noteq> Some Dir) \<and>
     nodes fs' (t @ [codes ''SKILL.md''])
       = Some (File (skill_content (clean_name n) d n p i e t1 deps)) \<and>
     nodes fs' (t @ [codes ''REFERENCE.md'']) = Some (File (reference_content n t2)) \<and>
     nodes fs' (t @ [codes ''resources'', codes ''README.md'']) = Some (File (resources_readme n)) \<and>
     nodes fs' (t @ [codes ''scripts'', codes ''README.md'']) = Some (File (scripts_readme n)) \<and>
     nodes fs' (t @ [codes ''.gitignore'']) = Some (File gitignore_content) \<and>
     (\<forall>q. q \<notin> file_locations t \<longrightarrow>
          nodes fs' q = nodes fs q \<or> (nodes fs q = None \<and> nodes fs' q = Some Dir)) \<and>
     (\<forall>q. nodes fs' q \<noteq> nodes fs q \<longrightarrow>
          q \<in> file_locations t \<or> q = t @ [codes ''resources''] \<or> q = t @ [codes ''scripts''] \<or>
          nodes fs1 q \<noteq> nodes fs q)"
proof -
  let ?c1 = "skill_content (clean_name n) d n p i e t1 deps"
  let ?c2 = "reference_content n t2" and ?c3 = "resources_readme n" and ?c4 = "scripts_readme n"
  from create_skill_run [OF assms] obtain fs1 fs3 t where
    m: "mkdir sd True True fs = (Inr (), fs1)" and
    r1: "resolve_dir fs1 sd = Inr t" and
    k: "only_dirs_added fs1 fs3" and
    ch: "\<forall>q. nodes fs3 q \<noteq> nodes fs1 q \<longrightarrow>
          q = t @ [codes ''resources''] \<or> q = t @ [codes ''scripts'']" and
    d1: "nodes fs3 (t @ [codes ''resources'']) = Some Dir" and
    d2: "nodes fs3 (t @ [codes ''scripts'']) = Some Dir" and
    r3: "resolve_dir fs3 sd = Inr t" and
    nd: "\<forall>q\<in>file_locations t. nodes fs3 q \<noteq> Some Dir" and
    fs': "fs' = with_files fs3 t ?c1 ?c2 ?c3 ?c4"
    by blast
  have k0: "only_dirs_added fs fs3"
    using mkdir_only_dirs_added [OF m] k by (rule only_dirs_added_trans)
  have a: "resolve_dir fs' sd = Inr t"
    unfolding fs' using with_files_kept [OF nd] r3 by (rule resolve_dir_kept)
  have b: "cwd fs' = cwd fs"
    using k0 by (simp add: fs' with_files_cwd only_dirs_added_def)
  have c: "nodes fs' (t @ [codes ''resources'']) = Some Dir"
    "nodes fs' (t @ [codes ''scripts'']) = Some Dir"
    using d1 d2 by (simp_all add: fs' with_files_other dirs_not_files)
  have e: "\<forall>q\<in>file_locations t. nodes fs' q \<noteq> Some Dir"
    unfolding fs' by (rule with_files_no_dirs)
  have f: "\<forall>q. q \<notin> file_locations t \<longrightarrow>
      nodes fs' q = nodes fs q \<or> (nodes fs q = None \<and> nodes fs' q = Some Dir)"
  proof (intro allI impI)
    fix q
    assume "q \<notin> file_locations t"
    then have "nodes fs' q = nodes fs3 q" by (simp add: fs' with_files_other)
    moreover have "nodes fs3 q = nodes fs q \<or> (nodes fs q = None \<and> nodes fs3 q = Some Dir)"
      using k0 by (simp add: only_dirs_added_def)
    ultimately show "nodes fs' q = nodes fs q \<or> (nodes fs q = None \<and> nodes fs' q = Some Dir)"
      by simp
  qed
  have g: "\<forall>q. nodes fs' q \<noteq> nodes fs q \<longrightarrow>
      q \<in> file_locations t \<or> q = t @ [codes ''resources''] \<or> q = t @ [codes ''scripts''] \<or>
      nodes fs1 q \<noteq> nodes fs q"
  proof (intro allI impI)
    fix q
    assume q: "nodes fs' q \<noteq> nodes fs q"
    show "q \<in> file_locations t \<or> q = t @ [codes ''resources''] \<or> q = t @ [codes ''scripts''] \<or>
      nodes fs1 q \<noteq> nodes fs q"
    proof (cases "q \<in> file_locations t")
      case True
      then show ?thesis by simp
    next
      case False
      then have 1: "nodes fs' q = nodes fs3 q" by (simp add: fs' with_files_other)
      show ?thesis
      proof (cases "nodes fs3 q = nodes fs1 q")
        case True
        with 1 q show ?thesis by simp
      next
        case False
        with ch have "q = t @ [codes ''resources''] \<or> q = t @ [codes ''scripts'']" by blast
        then show ?thesis by blast
      qed
    qed
  qed
  show ?thesis
    apply (rule exI [of _ fs1], rule exI [of _ t])
    using with_files_texts [of fs3 t ?c1 ?c2 ?c3 ?c4]
    unfolding fs' [symmetric]
    by (intro conjI m r1 a b c e f g)
qed

section \<open>Words that survive the normalisation\<close>

lemma sublist_filter: "sublist w xs \<Longrightarrow> sublist (filter P w) (filter P xs)"
proof -
  assume "sublist w xs"
  then obtain ps ss where "xs = ps @ w @ ss" by (auto simp: sublist_def)
  then have e: "filter P xs = filter P ps @ filter P w @ filter P ss" by simp
  show ?thesis unfolding e by (rule sublist_appendI)
qed

lemma dropWhile_keeps: "\<not> P c \<Longrightarrow> dropWhile P (ps @ c # r) = dropWhile P ps @ c # r"
  by (induction ps) auto

lemma sublist_dropWhile_word:
  assumes "sublist (c # w) xs" "\<not> P c"
  shows "sublist (c # w) (dropWhile P xs)"
proof -
  from assms(1) obtain ps ss where "xs = ps @ (c # w) @ ss" by (auto simp: sublist_def)
  then have e: "dropWhile P xs = dropWhile P ps @ (c # w) @ ss"
    using dropWhile_keeps [of P c ps "w @ ss"] assms(2) by simp
  show ?thesis unfolding e by (rule sublist_appendI)
qed

lemma sublist_strip_by_word:
  assumes "sublist w xs" "w \<noteq> []" "\<forall>c\<in>set w. \<not> P c"
  shows "sublist w (strip_by P xs)"
proof -
  obtain c v where w: "w = c # v" using assms(2) by (cases w) auto
  have 1: "sublist w (dropWhile P xs)"
    using sublist_dropWhile_word [of c v xs P] assms(1,3) w by simp
  obtain d u where rw: "rev w = d # u" using assms(2) by (cases "rev w") auto
  then have "\<not> P d" using assms(3) by (metis list.set_intros(1) set_rev)
  moreover have "sublist (d # u) (rev (dropWhile P xs))"
    using 1 rw by (metis sublist_rev)
  ultimately have "sublist (rev w) (dropWhile P (rev (dropWhile P xs)))"
    unfolding rw by (rule sublist_dropWhile_word [rotated])
  then show ?thesis by (simp add: strip_by_def sublist_rev_left)
qed

lemma re_sub_hyphens_word:
  "\<forall>c\<in>set w. c \<noteq> hyphen \<Longrightarrow> re_sub_hyphens (w @ ss) = w @ re_sub_hyphens ss"
  by (induction w) auto

lemma re_sub_hyphens_split:
  "c \<noteq> hyphen \<Longrightarrow> re_sub_hyphens (ps @ c # r) = re_sub_hyphens ps @ c # re_sub_hyphens r"
proof (induction ps rule: re_sub_hyphens.induct)
  case 1
  then show ?case by simp
next
  case (2 x xs)
  show ?case
  proof (cases "x = hyphen")
    case True
    have "dropWhile (\<lambda>d. d = hyphen) (xs @ c # r) = dropWhile (\<lambda>d. d = hyphen) xs @ c # r"
      using "2.prems" by (simp add: dropWhile_keeps)
    with True 2 show ?thesis by simp
  next
    case False
    with 2 show ?thesis by simp
  qed
qed

lemma sublist_re_sub_hyphens_word:
  assumes "sublist w xs" "\<forall>c\<in>set w. c \<noteq> hyphen"
  shows "sublist w (re_sub_hyphens xs)"
proof (cases w)
  case Nil
  then show ?thesis by simp
next
  case (Cons c v)
  from assms(1) obtain ps ss where "xs = ps @ w @ ss" by (auto simp: sublist_def)
  then have "xs = ps @ c # (v @ ss)" using Cons by simp
  moreover have "c \<noteq> hyphen" "\<forall>c\<in>set v. c \<noteq> hyphen" using assms(2) Cons by simp_all
  ultimately have e: "re_sub_hyphens xs = re_sub_hyphens ps @ (c # v) @ re_sub_hyphens ss"
    by (simp add: re_sub_hyphens_split re_sub_hyphens_word)
  show ?thesis unfolding e Cons by (rule sublist_appendI)
qed

text \<open>
  A word of letters and digits that occurs in the lowercased name occurs in the normal
  form of the name.
\<close>

lemma clean_name_keeps_word:
  assumes "sublist w (lower s)" "w \<noteq> []" "\<forall>c\<in>set w. slug_char c \<and> c \<noteq> hyphen"
  shows "sublist w (clean_name s)"
proof -
  have "map (\<lambda>c. if c = space then hyphen else c) w = w"
    using assms(3) slug_char_not_space by (intro map_idI) auto
  then have 1: "sublist w (replace space hyphen (lower s))"
    using map_mono_sublist [OF assms(1), of "\<lambda>c. if c = space then hyphen else c"]
    by (simp add: replace_def)
  have "filter slug_char w = w" using assms(3) by simp
  then have 2: "sublist w (re_sub_invalid (replace space hyphen (lower s)))"
    using sublist_filter [OF 1, of slug_char] by (simp add: re_sub_invalid_filter)
  have 3: "sublist w (re_sub_hyphens (re_sub_invalid (replace space hyphen (lower s))))"
    using sublist_re_sub_hyphens_word [OF 2] assms(3) by simp
  have "\<forall>c\<in>set w. \<not> c \<in> set (codes ''-'')" using assms(3) by (simp add: codes_hyphen)
  from sublist_strip_by_word [OF 3 assms(2) this] show ?thesis
    by (simp add: clean_name_def Let_def strip_chars_def)
qed

lemma reserved_words_plain:
  "\<forall>c\<in>set (codes ''anthropic''). slug_char c \<and> c \<noteq> hyphen"
  "\<forall>c\<in>set (codes ''claude''). slug_char c \<and> c \<noteq> hyphen"
  "codes ''anthropic'' \<noteq> []" "codes ''claude'' \<noteq> []"
  by (simp_all add: codes_def slug_char_def hyphen_def)

section \<open>Verified properties of the sanitizer\<close>

text \<open>
  C1. The specification asks that a name whose normal form is empty be rejected. The
  function has no such check: on the name \<open>---\<close>, which is not empty and so passes the
  check of the interactive caller, it returns the empty string.
\<close>

theorem sanitize_name_hyphens_empty: "sanitize_name (codes ''---'') = Inr []"
  by code_simp

text \<open>
  C2. Sanitizing is idempotent: when \<open>sanitize_name\<close> returns a name, it returns the
  same name on that name, so that the second call fails only if the first one did.
\<close>

theorem sanitize_name_idempotent:
  assumes "sanitize_name s = Inr r"
  shows "sanitize_name r = Inr r"
proof -
  from assms have "clean_name s = r" and "\<not> sublist (codes ''anthropic'') r"
    "\<not> sublist (codes ''claude'') r" "length r \<le> 64"
    by (simp_all add: sanitize_name_Inr)
  moreover from this have "clean_name r = r" using clean_name_idem [of s] by simp
  ultimately show ?thesis by (simp add: sanitize_name_Inr)
qed

theorem sanitize_name_idempotent_witness:
  "sanitize_name (codes ''My Cool Skill!!'') = Inr (codes ''my-cool-skill'') \<and>
   sanitize_name (codes ''my-cool-skill'') = Inr (codes ''my-cool-skill'')"
proof -
  have h: "sanitize_name (codes ''My Cool Skill!!'') = Inr (codes ''my-cool-skill'')"
    by code_simp
  from sanitize_name_idempotent [OF h] h show ?thesis by simp
qed

text \<open>
  C5. The three assignments of \<open>sanitize_name\<close> compute the four steps of the
  specification in their order (lowercase and spaces to hyphens, strip what is outside
  \<open>[a-z0-9-]\<close>, collapse runs of hyphens, trim hyphens at both ends), a name that is
  returned is the result of these steps, and \<open>My Cool Skill!!\<close> gives \<open>my-cool-skill\<close>.
\<close>

theorem sanitize_name_steps:
  "clean_name s = spec_normalize s \<and>
   (sanitize_name s = Inr r \<longrightarrow> r = spec_normalize s) \<and>
   sanitize_name (codes ''My Cool Skill!!'') = Inr (codes ''my-cool-skill'')"
proof -
  have "sanitize_name (codes ''My Cool Skill!!'') = Inr (codes ''my-cool-skill'')"
    by code_simp
  then show ?thesis
    using sanitize_name_cases [of s] by (auto simp: clean_name_spec)
qed

theorem sanitize_name_steps_witness:
  "sanitize_name (codes ''Data  Export--Tool'') = Inr (codes ''data-export-tool'') \<and>
   codes ''data-export-tool'' = spec_normalize (codes ''Data  Export--Tool'')"
proof -
  have h: "sanitize_name (codes ''Data  Export--Tool'') = Inr (codes ''data-export-tool'')"
    by code_simp
  from sanitize_name_steps [of "codes ''Data  Export--Tool''" "codes ''data-export-tool''"] h
  show ?thesis by simp
qed

text \<open>
  C8. A name whose normal form contains \<open>anthropic\<close> or \<open>claude\<close> is rejected with the
  message about reserved words; so is a name that contains one of the two words in any
  mix of upper and lower case, since the check follows the lowercasing. A name whose
  normal form has more than 64 characters is rejected with a \<open>ValueError\<close>. Both
  \<open>Claude Helper\<close> and seventy times \<open>a\<close> are rejected.
\<close>

theorem sanitize_name_rejects:
  "(sublist (codes ''anthropic'') (clean_name s) \<or> sublist (codes ''claude'') (clean_name s)
      \<longrightarrow> sanitize_name s = Inl (ValueError reserved_message)) \<and>
   (sublist (codes ''anthropic'') (lower s) \<or> sublist (codes ''claude'') (lower s)
      \<longrightarrow> sanitize_name s = Inl (ValueError reserved_message)) \<and>
   (length (clean_name s) > 64
      \<longrightarrow> sanitize_name s = Inl (ValueError reserved_message) \<or>
          sanitize_name s = Inl (ValueError length_message)) \<and>
   sanitize_name (codes ''Claude Helper'') = Inl (ValueError reserved_message) \<and>
   sanitize_name (concat (replicate 70 (codes ''a''))) = Inl (ValueError length_message)"
proof -
  have "sanitize_name (codes ''Claude Helper'') = Inl (ValueError reserved_message)"
    by code_simp
  moreover have "sanitize_name (concat (replicate 70 (codes ''a''))) = Inl (ValueError length_message)"
    by (simp add: repeat_single sanitize_name_replicate slug_char_def hyphen_def)
  moreover have "sublist (codes ''anthropic'') (lower s) \<Longrightarrow>
      sublist (codes ''anthropic'') (clean_name s)"
    by (rule clean_name_keeps_word [OF _ reserved_words_plain(3) reserved_words_plain(1)])
  moreover have "sublist (codes ''claude'') (lower s) \<Longrightarrow>
      sublist (codes ''claude'') (clean_name s)"
    by (rule clean_name_keeps_word [OF _ reserved_words_plain(4) reserved_words_plain(2)])
  ultimately show ?thesis by (auto simp: sanitize_name_def Let_def)
qed

theorem sanitize_name_rejects_witness:
  "sublist (codes ''claude'') (clean_name (codes ''My CLAUDE tool'')) \<and>
   sublist (codes ''claude'') (lower (codes ''My CLAUDE tool'')) \<and>
   sanitize_name (codes ''My CLAUDE tool'') = Inl (ValueError reserved_message) \<and>
   length (clean_name (concat (replicate 65 (codes ''b'')))) > 64 \<and>
   sanitize_name (concat (replicate 65 (codes ''b''))) = Inl (ValueError length_message)"
proof -
  have a: "sublist (codes ''claude'') (clean_name (codes ''My CLAUDE tool''))"
    by code_simp
  have b: "length (clean_name (concat (replicate 65 (codes ''b'')))) > 64"
    by (simp add: repeat_single clean_name_replicate slug_char_def hyphen_def)
  have "length_message \<noteq> reserved_message"
    by (simp add: length_message_def reserved_message_def codes_def)
  then have c: "sanitize_name (concat (replicate 65 (codes ''b''))) \<noteq> Inl (ValueError reserved_message)"
    by (simp add: repeat_single sanitize_name_replicate slug_char_def hyphen_def)
  from sanitize_name_rejects [of "codes ''My CLAUDE tool''"] a
  have "sanitize_name (codes ''My CLAUDE tool'') = Inl (ValueError reserved_message)" by blast
  moreover from sanitize_name_rejects [of "concat (replicate 65 (codes ''b''))"] b c
  have "sanitize_name (concat (replicate 65 (codes ''b''))) = Inl (ValueError length_message)" by blast
  moreover have "sublist (codes ''claude'') (lower (codes ''My CLAUDE tool''))"
    by code_simp
  ultimately show ?thesis using a b by simp
qed

text \<open>
  C9. A name that \<open>sanitize_name\<close> returns has only characters of \<open>[a-z0-9-]\<close>, no two
  hyphens in a row, no hyphen at its start or its end, at most 64 characters, and
  neither reserved word in it.
\<close>

theorem sanitize_name_structure:
  assumes "sanitize_name s = Inr r"
  shows "(\<forall>c\<in>set r. slug_char c) \<and> \<not> sublist [hyphen, hyphen] r \<and>
         \<not> prefix [hyphen] r \<and> \<not> suffix [hyphen] r \<and> length r \<le> 64 \<and>
         \<not> sublist (codes ''anthropic'') r \<and> \<not> sublist (codes ''claude'') r"
proof -
  from assms have r: "r = clean_name s" and rest: "\<not> sublist (codes ''anthropic'') r"
    "\<not> sublist (codes ''claude'') r" "length r \<le> 64"
    by (auto simp: sanitize_name_Inr)
  have "\<forall>c\<in>set r. slug_char c" using clean_name_chars r by blast
  moreover have "\<not> sublist [hyphen, hyphen] r" unfolding r by (rule clean_name_no_double)
  moreover have "\<not> prefix [hyphen] r" unfolding r by (rule clean_name_no_prefix)
  moreover have "\<not> suffix [hyphen] r" unfolding r by (rule clean_name_no_suffix)
  ultimately show ?thesis using rest by simp
qed

theorem sanitize_name_structure_witness:
  "sanitize_name (codes '' --Web  Scraper 2!-'') = Inr (codes ''web-scraper-2'') \<and>
   list_all slug_char (codes ''web-scraper-2'') \<and>
   \<not> sublist [hyphen, hyphen] (codes ''web-scraper-2'') \<and>
   \<not> prefix [hyphen] (codes ''web-scraper-2'') \<and> \<not> suffix [hyphen] (codes ''web-scraper-2'') \<and>
   length (codes ''web-scraper-2'') \<le> 64 \<and>
   \<not> sublist (codes ''anthropic'') (codes ''web-scraper-2'') \<and>
   \<not> sublist (codes ''claude'') (codes ''web-scraper-2'')"
proof -
  have h: "sanitize_name (codes '' --Web  Scraper 2!-'') = Inr (codes ''web-scraper-2'')"
    by code_simp
  from sanitize_name_structure [OF h] h show ?thesis by (simp add: list_all_iff)
qed

section \<open>Verified properties of the generator\<close>

text \<open>
  C3. The specification says that the path returned is absolute. The function returns the
  path it built, \<open>skill_dir\<close>, as it is: without an install path the result is the
  relative path of the directory named after the skill.
\<close>

theorem create_skill_returns_relative:
  "fst (create_skill (codes ''demo'') (codes ''d'') [] [] [] [] None [] [] example_fs)
     = Inr \<lparr>root = [], tail = [codes ''demo'']\<rparr> \<and>
   \<not> is_absolute \<lparr>root = [], tail = [codes ''demo'']\<rparr>"
proof -
  have "length (codes ''d'') \<le> 1024" "strip (codes ''d'') \<noteq> []"
    by (simp_all add: codes_def strip_def strip_by_def isspace_cp_def)
  from example_run [OF this] show ?thesis by (simp add: is_absolute_def)
qed

text \<open>
  C3, amended. A successful call returns the path of the target directory as it was built:
  the components of the install path, when one is given, followed by the sanitized name
  (nothing is appended when that name is empty). The path is absolute exactly when an
  install path that starts with a slash was given.
\<close>

theorem create_skill_returns_target:
  assumes "create_skill n d p i e deps ip t1 t2 fs = (Inr sd, fs')"
  shows "sd = skill_dir_of ip (clean_name n) \<and>
         tail sd = (case ip of None \<Rightarrow> [] | Some x \<Rightarrow> tail (Path x)) @
                   (if clean_name n = [] then [] else [clean_name n]) \<and>
         (is_absolute sd \<longleftrightarrow> (\<exists>x. ip = Some x \<and> take 1 x = [slash]))"
proof -
  from create_skill_run [OF assms] have sd: "sd = skill_dir_of ip (clean_name n)" by blast
  have slug: "\<forall>c\<in>set (clean_name n). slug_char c" using clean_name_chars by blast
  note eq = skill_dir_of_slug [OF slug, of ip]
  have "is_absolute sd \<longleftrightarrow> (\<exists>x. ip = Some x \<and> take 1 x = [slash])"
    unfolding sd eq is_absolute_def by (cases ip) (simp_all add: root_Path)
  moreover have "tail sd = (case ip of None \<Rightarrow> [] | Some x \<Rightarrow> tail (Path x)) @
                   (if clean_name n = [] then [] else [clean_name n])"
    unfolding sd eq by simp
  ultimately show ?thesis using sd by simp
qed

theorem create_skill_returns_target_witness:
  "fst (create_skill (codes ''demo'') (codes ''d'') [] [] [] [] None [] [] example_fs)
     = Inr (skill_dir_of None (clean_name (codes ''demo''))) \<and>
   tail (skill_dir_of None (clean_name (codes ''demo''))) = [clean_name (codes ''demo'')] \<and>
   \<not> is_absolute (skill_dir_of None (clean_name (codes ''demo'')))"
proof -
  have v: "length (codes ''d'') \<le> 1024" "strip (codes ''d'') \<noteq> []"
    by (simp_all add: codes_def strip_def strip_by_def isspace_cp_def)
  have c: "clean_name (codes ''demo'') = codes ''demo''"
    using sanitize_demo by (simp add: sanitize_name_Inr)
  have ne: "codes ''demo'' \<noteq> []" by (simp add: codes_def)
  from create_skill_returns_target [OF example_run [OF v, of "[]" "[]" "[]" "[]" "[]" "[]"]]
  show ?thesis using example_run [OF v, of "[]" "[]" "[]" "[]" "[]" "[]"] ne
    by (simp add: c skill_dir_demo)
qed

text \<open>
  C4. When the description is empty or longer than 1024 characters, the call raises a
  \<open>ValueError\<close> and leaves the file system as it was; when the name is valid, the error is
  the one about the length or the one about the empty description.
\<close>

theorem create_skill_rejects_description:
  assumes "d = [] \<or> length d > 1024"
  shows "\<exists>m. create_skill n d p i e deps ip t1 t2 fs = (Inl (ValueError m), fs) \<and>
             (sanitize_name n = Inr (clean_name n) \<longrightarrow>
                m = (if length d > 1024 then long_message else empty_message))"
proof -
  from sanitize_name_cases [of n] show ?thesis
  proof
    assume "\<exists>m. sanitize_name n = Inl (ValueError m)"
    then obtain m where m: "sanitize_name n = Inl (ValueError m)" by blast
    then have "create_skill n d p i e deps ip t1 t2 fs = (Inl (ValueError m), fs)"
      by (rule create_skill_bad_name)
    with m show ?thesis by simp
  next
    assume ok: "sanitize_name n = Inr (clean_name n)"
    show ?thesis
    proof (cases "length d > 1024")
      case True
      with create_skill_long [OF ok True] show ?thesis by simp
    next
      case False
      with assms have "d = []" by simp
      then have "length d \<le> 1024" "strip d = []" by (simp_all add: strip_Nil)
      from create_skill_blank [OF ok this] False show ?thesis by simp
    qed
  qed
qed

theorem create_skill_rejects_description_witness:
  "create_skill (codes ''demo'') [] [] [] [] [] None [] [] example_fs
     = (Inl (ValueError empty_message), example_fs) \<and>
   create_skill (codes ''demo'') (replicate 1025 120) [] [] [] [] None [] [] example_fs
     = (Inl (ValueError long_message), example_fs)"
proof -
  have ok: "sanitize_name (codes ''demo'') = Inr (clean_name (codes ''demo''))"
    using sanitize_demo by (simp add: sanitize_name_Inr)
  from create_skill_rejects_description [of "[]" "codes ''demo''" "[]" "[]" "[]" "[]" None "[]" "[]" example_fs]
  have a: "create_skill (codes ''demo'') [] [] [] [] [] None [] [] example_fs
     = (Inl (ValueError empty_message), example_fs)"
    using ok by auto
  from create_skill_rejects_description [of "replicate 1025 120" "codes ''demo''" "[]" "[]" "[]" "[]" None "[]" "[]" example_fs]
  have "create_skill (codes ''demo'') (replicate 1025 120) [] [] [] [] None [] [] example_fs
     = (Inl (ValueError long_message), example_fs)"
    using ok by auto
  with a show ?thesis by simp
qed

text \<open>
  C10. It is stated that every description made of whitespace only is rejected with the
  error about the empty description. The length is checked first: 1025 spaces are rejected
  with the error about the length.
\<close>

theorem create_skill_blank_long:
  "create_skill (codes ''demo'') (replicate 1025 space) [] [] [] [] None [] [] example_fs
     = (Inl (ValueError long_message), example_fs) \<and>
   long_message \<noteq> empty_message \<and> replicate 1025 space \<noteq> [] \<and>
   list_all isspace_cp (replicate 1025 space)"
proof -
  have "create_skill (codes ''demo'') (replicate 1025 space) [] [] [] [] None [] [] example_fs
     = (Inl (ValueError long_message), example_fs)"
    by (rule create_skill_long [OF sanitize_demo]) simp
  moreover have "list_all isspace_cp (replicate 1025 space)"
    by (simp add: list_all_iff isspace_cp_def space_def)
  ultimately show ?thesis using messages_differ by simp
qed

text \<open>
  C10, amended. For a valid name, a description that is not empty, has at most 1024
  characters and consists of whitespace only is rejected with the error about the empty
  description, and the file system is left as it was.
\<close>

theorem create_skill_rejects_blank:
  assumes "sanitize_name n = Inr safe" "d \<noteq> []" "\<forall>c\<in>set d. isspace_cp c" "length d \<le> 1024"
  shows "create_skill n d p i e deps ip t1 t2 fs = (Inl (ValueError empty_message), fs)"
proof -
  from assms(3) have "strip d = []" by (simp add: strip_Nil)
  from create_skill_blank [OF assms(1,4) this] show ?thesis .
qed

theorem create_skill_rejects_blank_witness:
  "create_skill (codes ''demo'') [space, 9, 10] [] [] [] [] None [] [] example_fs
     = (Inl (ValueError empty_message), example_fs)"
proof -
  have "\<forall>c\<in>set [space, 9, 10]. isspace_cp c" by (simp add: isspace_cp_def space_def)
  from create_skill_rejects_blank [OF sanitize_demo _ this] show ?thesis by simp
qed




text \<open>
  C7. After a successful call, a second call with the same name, description and install
  path succeeds, whatever its other texts and its dates are: the five files then hold the
  texts of the second call, and every other location is as the first call left it.
\<close>

theorem create_skill_twice:
  assumes "create_skill n d p i e deps ip t1 t2 fs = (Inr sd, fs1)"
  shows "\<exists>t fs2. resolve_dir fs1 sd = Inr t \<and>
     create_skill n d p' i' e' deps' ip t1' t2' fs1 = (Inr sd, fs2) \<and>
     resolve_dir fs2 sd = Inr t \<and>
     nodes fs2 (t @ [codes ''resources'']) = Some Dir \<and>
     nodes fs2 (t @ [codes ''scripts'']) = Some Dir \<and>
     nodes fs2 (t @ [codes ''SKILL.md''])
       = Some (File (skill_content (clean_name n) d n p' i' e' t1' deps')) \<and>
     nodes fs2 (t @ [codes ''REFERENCE.md'']) = Some (File (reference_content n t2')) \<and>
     nodes fs2 (t @ [codes ''resources'', codes ''README.md'']) = Some (File (resources_readme n)) \<and>
     nodes fs2 (t @ [codes ''scripts'', codes ''README.md'']) = Some (File (scripts_readme n)) \<and>
     nodes fs2 (t @ [codes ''.gitignore'']) = Some (File gitignore_content) \<and>
     (\<forall>q. q \<notin> file_locations t \<longrightarrow> nodes fs2 q = nodes fs1 q) \<and>
     cwd fs2 = cwd fs1"
proof -
  let ?c1 = "skill_content (clean_name n) d n p' i' e' t1' deps'"
  let ?c2 = "reference_content n t2'" and ?c3 = "resources_readme n" and ?c4 = "scripts_readme n"
  from create_skill_state [OF assms] obtain t where
    r: "resolve_dir fs1 sd = Inr t" and
    d1: "nodes fs1 (t @ [codes ''resources'']) = Some Dir" and
    d2: "nodes fs1 (t @ [codes ''scripts'']) = Some Dir" and
    nd: "\<forall>q\<in>file_locations t. nodes fs1 q \<noteq> Some Dir"
    by blast
  from create_skill_Inr [OF assms] have v: "sanitize_name n = Inr (clean_name n)"
    "length d \<le> 1024" "strip d \<noteq> []" by simp_all
  from create_skill_run [OF assms] have sd: "skill_dir_of ip (clean_name n) = sd" by blast
  define fs2 where "fs2 = with_files fs1 t ?c1 ?c2 ?c3 ?c4"
  have m: "mkdir sd True True fs1 = (Inr (), fs1)" by (rule mkdir_existing [OF r])
  have f: "fill_tree sd ?c1 ?c2 ?c3 ?c4 fs1 = (Inr sd, fs2)"
    unfolding fs2_def by (rule fill_tree_existing [OF r d1 d2 nd])
  have run: "create_skill n d p' i' e' deps' ip t1' t2' fs1 = (Inr sd, fs2)"
    unfolding create_skill_valid [OF v] sd by (simp only: seq_def m f prod.case sum.case)
  have r2: "resolve_dir fs2 sd = Inr t"
    unfolding fs2_def using with_files_kept [OF nd] r by (rule resolve_dir_kept)
  have e: "nodes fs2 (t @ [codes ''resources'']) = Some Dir"
    "nodes fs2 (t @ [codes ''scripts'']) = Some Dir"
    using d1 d2 by (simp_all add: fs2_def with_files_other dirs_not_files)
  have o: "\<forall>q. q \<notin> file_locations t \<longrightarrow> nodes fs2 q = nodes fs1 q"
    by (simp add: fs2_def with_files_other)
  have w: "cwd fs2 = cwd fs1" by (simp add: fs2_def with_files_cwd)
  show ?thesis
    apply (rule exI [of _ t], rule exI [of _ fs2])
    using with_files_texts [of fs1 t ?c1 ?c2 ?c3 ?c4]
    unfolding fs2_def [symmetric]
    by (intro conjI r run r2 e o w)
qed

theorem create_skill_twice_witness:
  "fst (create_skill (codes ''demo'') (codes ''d'') [] [] [] [] None [] [] example_fs)
     = Inr \<lparr>root = [], tail = [codes ''demo'']\<rparr> \<and>
   fst (create_skill (codes ''demo'') (codes ''d'') (codes ''new'') [] [] [] None (codes ''2'') []
          (snd (create_skill (codes ''demo'') (codes ''d'') [] [] [] [] None [] [] example_fs)))
     = Inr \<lparr>root = [], tail = [codes ''demo'']\<rparr> \<and>
   nodes (snd (create_skill (codes ''demo'') (codes ''d'') (codes ''new'') [] [] [] None (codes ''2'') []
          (snd (create_skill (codes ''demo'') (codes ''d'') [] [] [] [] None [] [] example_fs))))
     [codes ''home'', codes ''demo'', codes ''SKILL.md'']
     = Some (File (skill_content (codes ''demo'') (codes ''d'') (codes ''demo'') (codes ''new'') [] []
                     (codes ''2'') []))"
proof -
  let ?sd = "\<lparr>root = [], tail = [codes ''demo'']\<rparr> :: path"
  have v: "length (codes ''d'') \<le> 1024" "strip (codes ''d'') \<noteq> []"
    by (simp_all add: codes_def strip_def strip_by_def isspace_cp_def)
  have c: "clean_name (codes ''demo'') = codes ''demo''"
    using sanitize_demo by (simp add: sanitize_name_Inr)
  note run = example_run [OF v, of "[]" "[]" "[]" "[]" "[]" "[]"]
  obtain F where F: "create_skill (codes ''demo'') (codes ''d'') [] [] [] [] None [] [] example_fs
      = (Inr ?sd, F)" and cwd: "cwd F = [codes ''home'']"
    using run by (simp add: with_files_cwd with_dirs_def example_fs_def)
  from create_skill_twice [OF F, of "codes ''new''" "[]" "[]" "[]" "codes ''2''" "[]"]
  obtain t G where
    r: "resolve_dir F ?sd = Inr t" and
    g: "create_skill (codes ''demo'') (codes ''d'') (codes ''new'') [] [] [] None (codes ''2'') [] F
          = (Inr ?sd, G)" and
    s: "nodes G (t @ [codes ''SKILL.md''])
          = Some (File (skill_content (clean_name (codes ''demo'')) (codes ''d'') (codes ''demo'')
                          (codes ''new'') [] [] (codes ''2'') []))"
    by blast
  have "dotdot \<notin> set (tail ?sd)" by (simp add: codes_def dotdot_def)
  from resolve_no_dotdot [OF this r] have "t = [codes ''home'', codes ''demo'']"
    by (simp add: base_dir_def cwd)
  with s show ?thesis by (simp add: F g c)
qed

end
